theory Spec2Isabelle
  imports
    Main
    "HOL-Library.Word"
    "HOL-Library.List_Lexorder"
    "HOL-Library.Product_Lexorder"
    "HOL-Library.Multiset"
    "HOL-Library.FSet"
begin

section \<open>Strings and JSON values of the host language\<close>

text \<open>
  A string of the host language is a sequence of 16-bit code units.  The order \<open><\<close> on
  such sequences (lexicographic, code units compared as unsigned numbers) is the order
  the default \<^verbatim>\<open>Array.prototype.sort()\<close> uses on strings.  \<open>lit\<close> writes an ASCII literal.
\<close>

type_synonym jstring = "16 word list"

definition lit :: "string \<Rightarrow> jstring" where
  "lit s = map of_char s"

text \<open>
  The values \<^verbatim>\<open>JSON.parse\<close> produces.  An object is the list of its own properties in the
  order \<^verbatim>\<open>Object.keys\<close> enumerates them.  The numbers of the host are the type parameter
  \<open>'n\<close>: the program never computes with a number, it only prints and tests one, and these
  operations are the host's (see \<open>host\<close> below).  Two numbers are equal when \<^verbatim>\<open>===\<close> holds
  of them, so the two zeros are one value; the program cannot tell them apart.
\<close>

datatype 'n json =
    JNull
  | JBool bool
  | JNum 'n
  | JStr jstring
  | JArr "'n json list"
  | JObj "(jstring \<times> 'n json) list"

text \<open>
  What the program takes from the host.  \<open>localeCompare\<close> is \<^verbatim>\<open>s.localeCompare(t)\<close>, which
  depends on the host's locale data.  \<open>number_to_json\<close> is \<^verbatim>\<open>JSON.stringify(n)\<close> and
  \<open>number_to_string\<close> is \<^verbatim>\<open>String(n)\<close> on a number (they differ on the infinities, which
  \<^verbatim>\<open>JSON.parse\<close> produces for a literal out of range); both print the shortest decimal
  that reads back as the number, in exponent form from \<open>10^21\<close> on.  \<open>number_is_truthy\<close> is
  false for zero only.  \<open>json_parse\<close> is \<^verbatim>\<open>JSON.parse\<close>, \<open>None\<close> standing for its
  \<^verbatim>\<open>SyntaxError\<close>.
\<close>

record 'n host =
  localeCompare :: "jstring \<Rightarrow> jstring \<Rightarrow> int"
  number_to_json :: "'n \<Rightarrow> jstring"
  number_to_string :: "'n \<Rightarrow> jstring"
  number_is_truthy :: "'n \<Rightarrow> bool"
  json_parse :: "jstring \<Rightarrow> 'n json option"

text \<open>\<^verbatim>\<open>xs.join(sep)\<close> on strings already converted.\<close>

fun join :: "jstring \<Rightarrow> jstring list \<Rightarrow> jstring" where
  "join sep [] = []"
| "join sep [x] = x"
| "join sep (x # y # ys) = x @ sep @ join sep (y # ys)"

text \<open>The decimal digits of a natural number (the canonical form of an array index).\<close>

fun digits :: "nat \<Rightarrow> jstring" where
  "digits n = (if n < 10 then [48 + of_nat n] else digits (n div 10) @ [48 + of_nat (n mod 10)])"

declare digits.simps [simp del]

text \<open>
  \<^verbatim>\<open>JSON.stringify\<close> of a string: the quoted form.  Control characters, the quote and the
  backslash are escaped; a surrogate code unit that is not half of a pair is written as a
  \<^verbatim>\<open>\uXXXX\<close> escape, a well-formed pair is copied.
\<close>

definition hexdigit :: "nat \<Rightarrow> 16 word" where
  "hexdigit n = (if n < 10 then 48 + of_nat n else 87 + of_nat n)"

definition unicode_escape :: "16 word \<Rightarrow> jstring" where
  "unicode_escape c =
     [92, 117, hexdigit (unat c div 4096), hexdigit (unat c div 256 mod 16),
      hexdigit (unat c div 16 mod 16), hexdigit (unat c mod 16)]"

definition is_high_surrogate :: "16 word \<Rightarrow> bool" where
  "is_high_surrogate c \<longleftrightarrow> 0xD800 \<le> c \<and> c \<le> 0xDBFF"

definition is_low_surrogate :: "16 word \<Rightarrow> bool" where
  "is_low_surrogate c \<longleftrightarrow> 0xDC00 \<le> c \<and> c \<le> 0xDFFF"

definition escape_unit :: "16 word \<Rightarrow> jstring" where
  "escape_unit c =
     (if c = 8 then [92, 98]
      else if c = 9 then [92, 116]
      else if c = 10 then [92, 110]
      else if c = 12 then [92, 102]
      else if c = 13 then [92, 114]
      else if c = 34 then [92, 34]
      else if c = 92 then [92, 92]
      else if c < 32 \<or> is_high_surrogate c \<or> is_low_surrogate c then unicode_escape c
      else [c])"

fun quote_units :: "jstring \<Rightarrow> jstring" where
  "quote_units [] = []"
| "quote_units [c] = escape_unit c"
| "quote_units (c # d # r) =
     (if is_high_surrogate c \<and> is_low_surrogate d then c # d # quote_units r
      else escape_unit c @ quote_units (d # r))"

definition quote :: "jstring \<Rightarrow> jstring" where
  "quote s = 34 # quote_units s @ [34]"

text \<open>\<^verbatim>\<open>JSON.stringify(v)\<close> with no indentation.\<close>

fun stringify :: "'n host \<Rightarrow> 'n json \<Rightarrow> jstring" where
  "stringify h JNull = lit ''null''"
| "stringify h (JBool b) = (if b then lit ''true'' else lit ''false'')"
| "stringify h (JNum n) = number_to_json h n"
| "stringify h (JStr s) = quote s"
| "stringify h (JArr xs) = 91 # join [44] (map (stringify h) xs) @ [93]"
| "stringify h (JObj kvs) =
     123 # join [44] (map (\<lambda>(k, v). quote k @ 58 # stringify h v) kvs) @ [125]"

text \<open>
  \<^verbatim>\<open>String(v)\<close>, the conversion the default sort and \<^verbatim>\<open>join\<close> apply to an element; \<open>None\<close> is
  the \<^verbatim>\<open>TypeError\<close> it throws.  An object is converted by its \<^verbatim>\<open>toString\<close> property: an
  object without an own property of that name inherits the method that answers
  \<^verbatim>\<open>[object Object]\<close>; an own property holds a parsed value, which cannot be called, and
  then neither \<^verbatim>\<open>toString\<close> nor \<^verbatim>\<open>valueOf\<close> yields a primitive and the conversion throws.
  An array is converted by \<^verbatim>\<open>join\<close>, which writes \<^verbatim>\<open>null\<close> as the empty string.
\<close>

fun toString :: "'n host \<Rightarrow> 'n json \<Rightarrow> jstring option" where
  "toString h JNull = Some (lit ''null'')"
| "toString h (JBool b) = Some (if b then lit ''true'' else lit ''false'')"
| "toString h (JNum n) = Some (number_to_string h n)"
| "toString h (JStr s) = Some s"
| "toString h (JArr xs) =
     map_option (join [44]) (those (map (\<lambda>x. if x = JNull then Some [] else toString h x) xs))"
| "toString h (JObj kvs) =
     (if lit ''toString'' \<in> fst ` set kvs then None else Some (lit ''[object Object]''))"

text \<open>\<^verbatim>\<open>xs.join(sep)\<close> on values.\<close>

definition join_elems :: "'n host \<Rightarrow> jstring \<Rightarrow> 'n json list \<Rightarrow> jstring option" where
  "join_elems h sep xs =
     map_option (join sep) (those (map (\<lambda>x. if x = JNull then Some [] else toString h x) xs))"

text \<open>
  \<^verbatim>\<open>xs.sort()\<close> with no comparator: elements are ordered by the code units of their string
  conversions, and the sort is stable.  An array of fewer than two elements needs no
  comparison, so nothing is converted; otherwise every element takes part in a comparison
  and a conversion that throws ends the sort.
\<close>

definition sort_default :: "'n host \<Rightarrow> 'n json list \<Rightarrow> 'n json list option" where
  "sort_default h xs =
     (if length xs \<le> 1 then Some xs
      else map_option (\<lambda>keys. map snd (sort_key fst (zip keys xs)))
             (those (map (toString h) xs)))"

text \<open>Truthiness (\<^verbatim>\<open>!v\<close> is its negation) and own-property lookup \<^verbatim>\<open>v[key]\<close>.\<close>

fun truthy :: "'n host \<Rightarrow> 'n json \<Rightarrow> bool" where
  "truthy h JNull = False"
| "truthy h (JBool b) = b"
| "truthy h (JNum n) = number_is_truthy h n"
| "truthy h (JStr s) = (s \<noteq> [])"
| "truthy h (JArr xs) = True"
| "truthy h (JObj kvs) = True"

fun get_prop :: "'n json \<Rightarrow> jstring \<Rightarrow> 'n json option" where
  "get_prop (JObj kvs) k = map_of kvs k"
| "get_prop v k = None"

fun set_prop :: "'n json \<Rightarrow> jstring \<Rightarrow> 'n json \<Rightarrow> 'n json" where
  "set_prop (JObj kvs) k w = JObj (map (\<lambda>(k', v). if k' = k then (k', w) else (k', v)) kvs)"
| "set_prop v k w = v"

section \<open>Type keys\<close>

text \<open>
  \<^verbatim>\<open>getSchemaType(schema)\<close>.  The array branch calls \<^verbatim>\<open>schema["@type"].sort()\<close>, which sorts
  the array held by the schema in place, so the function returns the type key together
  with the schema as the call leaves it.  \<open>None\<close> is the \<^verbatim>\<open>TypeError\<close> of a conversion in
  \<^verbatim>\<open>sort\<close> or \<^verbatim>\<open>join\<close>, which the function does not catch.
\<close>

definition getSchemaType :: "'n host \<Rightarrow> 'n json \<Rightarrow> (jstring \<times> 'n json) option" where
  "getSchemaType h schema =
     (if \<not> truthy h schema then Some (lit ''unknown'', schema)
      else case get_prop schema (lit ''@type'') of
        Some (JStr s) \<Rightarrow> Some (s, schema)
      | Some (JArr ts) \<Rightarrow>
          (case sort_default h ts of
             None \<Rightarrow> None
           | Some ts' \<Rightarrow>
               (case join_elems h (lit '', '') ts' of
                  None \<Rightarrow> None
                | Some key \<Rightarrow> Some (key, set_prop schema (lit ''@type'') (JArr ts'))))
      | Some (JObj kvs) \<Rightarrow> Some (stringify h (JObj kvs), schema)
      | _ \<Rightarrow> Some (lit ''unknown'', schema))"

section \<open>Sorting with a comparator\<close>

text \<open>
  \<^verbatim>\<open>xs.sort(cmp)\<close>.  For a consistent comparator the language fixes the result: the
  elements in ascending order, elements that compare equal in their original order.  The
  stable insertion sort below is that result; \<open>cmp x y \<le> 0\<close> reads "x is not after y".
\<close>

fun insert_by :: "('a \<Rightarrow> 'a \<Rightarrow> int) \<Rightarrow> 'a \<Rightarrow> 'a list \<Rightarrow> 'a list" where
  "insert_by cmp x [] = [x]"
| "insert_by cmp x (y # ys) = (if cmp x y \<le> 0 then x # y # ys else y # insert_by cmp x ys)"

definition sort_by :: "('a \<Rightarrow> 'a \<Rightarrow> int) \<Rightarrow> 'a list \<Rightarrow> 'a list" where
  "sort_by cmp xs = foldr (insert_by cmp) xs []"

text \<open>
  A consistent comparator, as the language requires of \<^verbatim>\<open>localeCompare\<close>: the sign of
  \<open>cmp a b\<close> is opposite to the sign of \<open>cmp b a\<close>, and "not after" is transitive.
\<close>

definition consistent_comparator :: "('a \<Rightarrow> 'a \<Rightarrow> int) \<Rightarrow> bool" where
  "consistent_comparator cmp \<longleftrightarrow>
     (\<forall>a b. (cmp a b < 0) = (0 < cmp b a)) \<and>
     (\<forall>a b c. cmp a b \<le> 0 \<and> cmp b c \<le> 0 \<longrightarrow> cmp a c \<le> 0)"

section \<open>The host's locale-sensitive comparison\<close>

text \<open>
  \<open>root_collation\<close> is a reference instance of \<open>localeCompare\<close> for evaluating examples:
  the multi-level comparison of the Unicode
  collation algorithm with the root order on printable ASCII (punctuation and symbols,
  then digits, then letters; a letter's case only breaks ties, lower case first), and
  with the letter A WITH RING ABOVE in its two encodings U+00C5 and U+212B (ANGSTROM
  SIGN), which are canonically equivalent and therefore compare as equal.  Code units
  outside this fragment are placed after it by value.
\<close>

definition collation_table :: "16 word list" where
  "collation_table =
     [32, 95, 45, 44, 59, 58, 33, 63, 46, 39, 34, 40, 41, 91, 93, 123, 125, 64, 42, 47, 92,
      38, 35, 37, 96, 94, 43, 60, 61, 62, 124, 126, 36]"

fun index_of :: "'a \<Rightarrow> 'a list \<Rightarrow> nat" where
  "index_of x [] = 0"
| "index_of x (y # ys) = (if x = y then 0 else Suc (index_of x ys))"

definition primary_weight :: "16 word \<Rightarrow> nat" where
  "primary_weight c =
     (if 97 \<le> c \<and> c \<le> 122 then 100 + (unat c - 97)
      else if 65 \<le> c \<and> c \<le> 90 then 100 + (unat c - 65)
      else if c = 0xC5 \<or> c = 0xE5 \<or> c = 0x212B then 100
      else if 48 \<le> c \<and> c \<le> 57 then 50 + (unat c - 48)
      else if c \<in> set collation_table then index_of c collation_table
      else 1000 + unat c)"

definition secondary_weight :: "16 word \<Rightarrow> nat" where
  "secondary_weight c = (if c = 0xC5 \<or> c = 0xE5 \<or> c = 0x212B then 1 else 0)"

definition tertiary_weight :: "16 word \<Rightarrow> nat" where
  "tertiary_weight c = (if (65 \<le> c \<and> c \<le> 90) \<or> c = 0xC5 \<or> c = 0x212B then 1 else 0)"

definition collation_key :: "jstring \<Rightarrow> nat list \<times> nat list \<times> nat list" where
  "collation_key s = (map primary_weight s, map secondary_weight s, map tertiary_weight s)"

definition root_collation :: "jstring \<Rightarrow> jstring \<Rightarrow> int" where
  "root_collation s t =
     (if collation_key s < collation_key t then - 1
      else if collation_key t < collation_key s then 1
      else 0)"

section \<open>Objects and the schema canonicalizer\<close>

text \<open>
  Own properties are enumerated with the array-index keys first, in ascending numeric
  order, then the other keys in the order they were created.  An array index is the
  canonical decimal form of a number below \<open>2^32 - 1\<close>.
\<close>

definition parse_nat :: "jstring \<Rightarrow> nat" where
  "parse_nat k = foldl (\<lambda>n c. 10 * n + (unat c - 48)) 0 k"

definition is_array_index :: "jstring \<Rightarrow> bool" where
  "is_array_index k \<longleftrightarrow> k \<noteq> [] \<and> digits (parse_nat k) = k \<and> parse_nat k < 4294967295"

fun insert_index :: "jstring \<Rightarrow> 'v \<Rightarrow> (jstring \<times> 'v) list \<Rightarrow> (jstring \<times> 'v) list" where
  "insert_index k v [] = [(k, v)]"
| "insert_index k v ((k', v') # r) =
     (if is_array_index k' \<and> parse_nat k' < parse_nat k then (k', v') # insert_index k v r
      else (k, v) # (k', v') # r)"

text \<open>
  The assignment \<^verbatim>\<open>o[k] = v\<close> on an object that started as \<^verbatim>\<open>{}\<close>.  An existing
  property keeps its place.  The key \<^verbatim>\<open>__proto__\<close> reaches the setter inherited from
  \<^verbatim>\<open>Object.prototype\<close> and creates no own property.
\<close>

definition obj_put :: "jstring \<Rightarrow> 'v \<Rightarrow> (jstring \<times> 'v) list \<Rightarrow> (jstring \<times> 'v) list" where
  "obj_put k v kvs =
     (if k = lit ''__proto__'' then kvs
      else if k \<in> fst ` set kvs
        then map (\<lambda>(k', v'). if k' = k then (k', v) else (k', v')) kvs
      else if is_array_index k then insert_index k v kvs
      else kvs @ [(k, v)])"

text \<open>\<^verbatim>\<open>schema[key]\<close> for a key of \<^verbatim>\<open>Object.keys(schema)\<close>.\<close>

definition obj_get :: "(jstring \<times> 'n json) list \<Rightarrow> jstring \<Rightarrow> 'n json" where
  "obj_get kvs k = (case map_of kvs k of Some v \<Rightarrow> v | None \<Rightarrow> JNull)"

lemma size_obj_get [termination_simp]:
  "(k, v) \<in> set kvs \<Longrightarrow>
   size (obj_get kvs k) < Suc (size_list (\<lambda>x. Suc (size (snd x))) kvs)"
  by (induction kvs) (auto simp: obj_get_def)

text \<open>\<^verbatim>\<open>normalizeSchema(schema)\<close>.\<close>

fun normalizeSchema :: "'n host \<Rightarrow> 'n json \<Rightarrow> 'n json" where
  "normalizeSchema h (JArr xs) =
     JArr (sort_by (\<lambda>a b. localeCompare h (stringify h a) (stringify h b))
            (map (normalizeSchema h) xs))"
| "normalizeSchema h (JObj kvs) =
     JObj (foldl (\<lambda>normalized key.
                    obj_put key (normalizeSchema h (obj_get kvs key)) normalized)
            [] (sort (map fst kvs)))"
| "normalizeSchema h v = v"

text \<open>
  The comparator the specification describes: code-unit order on the serialized forms.
\<close>

definition code_unit_compare :: "jstring \<Rightarrow> jstring \<Rightarrow> int" where
  "code_unit_compare s t = (if s < t then - 1 else if t < s then 1 else 0)"

section \<open>Schema extraction and grouping\<close>

record 'n JsonLdSchema =
  url :: jstring
  schemas :: "'n json list"
  schemasByType :: "(jstring \<times> 'n json list) list"

text \<open>
  A \<^verbatim>\<open>Map\<close> from type keys to arrays, in insertion order: \<^verbatim>\<open>grouped.set(type, [])\<close> for a
  new key followed by \<^verbatim>\<open>grouped.get(type).push(schema)\<close>.
\<close>

definition map_push ::
  "jstring \<Rightarrow> 'n json \<Rightarrow> (jstring \<times> 'n json list) list \<Rightarrow> (jstring \<times> 'n json list) list" where
  "map_push t s grouped =
     (if t \<in> fst ` set grouped
      then map (\<lambda>(t', ss). if t' = t then (t', ss @ [s]) else (t', ss)) grouped
      else grouped @ [(t, [s])])"

text \<open>
  \<^verbatim>\<open>groupSchemasByType(schemas)\<close>: the grouping, and the schemas as the calls of
  \<^verbatim>\<open>getSchemaType\<close> leave them (the buckets hold the same objects).  \<open>None\<close> is the
  \<^verbatim>\<open>TypeError\<close> of a call of \<^verbatim>\<open>getSchemaType\<close>, which ends the loop.
\<close>

definition group_step ::
  "'n host \<Rightarrow> ((jstring \<times> 'n json list) list \<times> 'n json list) option \<Rightarrow> 'n json \<Rightarrow>
   ((jstring \<times> 'n json list) list \<times> 'n json list) option" where
  "group_step h state schema =
     (case state of
        None \<Rightarrow> None
      | Some (grouped, seen) \<Rightarrow>
          (case getSchemaType h schema of
             None \<Rightarrow> None
           | Some (t, schema') \<Rightarrow> Some (map_push t schema' grouped, seen @ [schema'])))"

definition groupSchemasByType ::
  "'n host \<Rightarrow> 'n json list \<Rightarrow> ((jstring \<times> 'n json list) list \<times> 'n json list) option" where
  "groupSchemasByType h found = foldl (group_step h) (Some ([], [])) found"

text \<open>
  One round of the loop over the structured-data blocks of \<^verbatim>\<open>extractJsonLdSchemas\<close>, on the
  text content of the block.  An empty content is passed over by \<^verbatim>\<open>if (content)\<close>.  The
  exception of \<^verbatim>\<open>JSON.parse\<close> is caught and a warning goes to the console: the text below
  (which the terminal library colours), followed by the exception.
\<close>

definition extract_block ::
  "'n host \<Rightarrow> jstring \<Rightarrow> 'n json list \<times> jstring list \<Rightarrow> jstring \<Rightarrow>
   'n json list \<times> jstring list" where
  "extract_block h u acc content =
     (case acc of (found, warnings) \<Rightarrow>
        if content = [] then (found, warnings)
        else case json_parse h content of
          None \<Rightarrow>
            (found,
             warnings @ [lit ''Warning: Failed to parse JSON-LD schema in '' @ u @ lit '':''])
        | Some (JArr parsed) \<Rightarrow> (found @ parsed, warnings)
        | Some parsed \<Rightarrow> (found @ [parsed], warnings))"

text \<open>
  \<^verbatim>\<open>extractJsonLdSchemas(html, url)\<close> on the contents of the document's
  \<^verbatim>\<open>script[type="application/ld+json"]\<close> elements in document order (selecting them is the
  DOM library's work).  The outcome is the returned record, or \<open>None\<close> when the grouping
  after the loop throws its \<^verbatim>\<open>TypeError\<close>; it comes with the warnings written to the console,
  which are written before the grouping starts.
\<close>

definition extractJsonLdSchemas ::
  "'n host \<Rightarrow> jstring list \<Rightarrow> jstring \<Rightarrow> 'n JsonLdSchema option \<times> jstring list" where
  "extractJsonLdSchemas h blocks u =
     (case foldl (extract_block h u) ([], []) blocks of (found, warnings) \<Rightarrow>
        (case groupSchemasByType h found of
           None \<Rightarrow> None
         | Some (byType, found') \<Rightarrow> Some \<lparr>url = u, schemas = found', schemasByType = byType\<rparr>,
         warnings))"

section \<open>Comparison\<close>

record 'd TypeComparison =
  type :: jstring
  count1 :: nat
  count2 :: nat
  differences :: "'d list"
  identical :: bool

text \<open>
  \<^verbatim>\<open>compareSchemasOfType\<close>.  \<open>diff\<close> is the differ of the \<^verbatim>\<open>deep-diff\<close> package, which
  returns \<^verbatim>\<open>undefined\<close> (\<open>None\<close>) or an array of entries.
\<close>

definition compareSchemasOfType ::
  "('n json \<Rightarrow> 'n json \<Rightarrow> 'd list option) \<Rightarrow> 'n host \<Rightarrow> jstring \<Rightarrow>
   'n json list \<Rightarrow> 'n json list \<Rightarrow> 'd TypeComparison" where
  "compareSchemasOfType diff h t schemas1 schemas2 =
     (let normalized1 = sort_by (\<lambda>a b. localeCompare h (stringify h a) (stringify h b))
                          (map (normalizeSchema h) schemas1);
          normalized2 = sort_by (\<lambda>a b. localeCompare h (stringify h a) (stringify h b))
                          (map (normalizeSchema h) schemas2);
          ds = diff (JArr normalized1) (JArr normalized2)
      in \<lparr>type = t, count1 = length schemas1, count2 = length schemas2,
          differences = (case ds of None \<Rightarrow> [] | Some es \<Rightarrow> es),
          identical = (case ds of None \<Rightarrow> True | Some es \<Rightarrow> length es = 0)\<rparr>)"

record 'd Comparison =
  url1 :: jstring
  url2 :: jstring
  totalSchemas1 :: nat
  totalSchemas2 :: nat
  typeCounts1 :: "(jstring \<times> nat) list"
  typeCounts2 :: "(jstring \<times> nat) list"
  typeComparisons :: "'d TypeComparison list"
  allTypesIdentical :: bool

text \<open>\<^verbatim>\<open>new Set(xs)\<close>: the distinct elements in the order of their first occurrence.\<close>

definition set_add :: "'a list \<Rightarrow> 'a \<Rightarrow> 'a list" where
  "set_add s x = (if x \<in> set s then s else s @ [x])"

definition new_Set :: "'a list \<Rightarrow> 'a list" where
  "new_Set xs = foldl set_add [] xs"

text \<open>\<^verbatim>\<open>m.get(type) || []\<close>\<close>

definition get_or_empty :: "(jstring \<times> 'n json list) list \<Rightarrow> jstring \<Rightarrow> 'n json list" where
  "get_or_empty m t = (case map_of m t of Some ss \<Rightarrow> ss | None \<Rightarrow> [])"

definition compareSchemas ::
  "('n json \<Rightarrow> 'n json \<Rightarrow> 'd list option) \<Rightarrow> 'n host \<Rightarrow>
   'n JsonLdSchema \<Rightarrow> 'n JsonLdSchema \<Rightarrow> 'd Comparison" where
  "compareSchemas diff h schemas1 schemas2 =
     (let allTypes = new_Set (map fst (schemasByType schemas1) @ map fst (schemasByType schemas2));
          counts1 = foldl (\<lambda>counts (t, ss). obj_put t (length ss) counts) []
                      (schemasByType schemas1);
          counts2 = foldl (\<lambda>counts (t, ss). obj_put t (length ss) counts) []
                      (schemasByType schemas2);
          comparisons =
            map (\<lambda>t. compareSchemasOfType diff h t
                        (get_or_empty (schemasByType schemas1) t)
                        (get_or_empty (schemasByType schemas2) t))
              allTypes
      in \<lparr>url1 = url schemas1, url2 = url schemas2,
          totalSchemas1 = length (schemas schemas1), totalSchemas2 = length (schemas schemas2),
          typeCounts1 = counts1, typeCounts2 = counts2,
          typeComparisons = comparisons,
          allTypesIdentical = list_all identical comparisons\<rparr>)"

section \<open>The structural differ\<close>

text \<open>
  Modelled from the spec: the structural differ \<^verbatim>\<open>diff\<close> is the \<^verbatim>\<open>deep-diff\<close> package, whose
  code is not part of the repository.  The model follows section 4.3 of the specification:
  equal values give no entry; a key only on the right gives \<open>Added\<close>, a key only on the
  left \<open>Removed\<close>; differing scalars or shapes give \<open>Edited\<close>; arrays are compared position
  by position, surplus positions give an \<open>ArrayChange\<close> holding an \<open>Added\<close> or \<open>Removed\<close>
  element; a path lists the keys and zero-based indices from the root.
\<close>

datatype path_elem = Key jstring | Index nat

datatype 'n diff_entry =
    Added "path_elem list" "'n json"
  | Removed "path_elem list" "'n json"
  | Edited "path_elem list" "'n json" "'n json"
  | ArrayChange "path_elem list" nat "'n diff_entry"

fun diff_at :: "path_elem list \<Rightarrow> 'n json \<Rightarrow> 'n json \<Rightarrow> 'n diff_entry list"
  and diff_members ::
    "path_elem list \<Rightarrow> (jstring \<times> 'n json) list \<Rightarrow> (jstring \<times> 'n json) list \<Rightarrow>
     'n diff_entry list"
  and diff_items ::
    "path_elem list \<Rightarrow> nat \<Rightarrow> 'n json list \<Rightarrow> 'n json list \<Rightarrow> 'n diff_entry list"
where
  "diff_at p (JObj as) (JObj bs) =
     diff_members p as bs @
     concat (map (\<lambda>(k, b). if k \<in> fst ` set as then [] else [Added (p @ [Key k]) b]) bs)"
| "diff_at p (JArr xs) (JArr ys) = diff_items p 0 xs ys"
| "diff_at p a b = (if a = b then [] else [Edited p a b])"
| "diff_members p [] bs = []"
| "diff_members p ((k, a) # as) bs =
     (case map_of bs k of
        Some b \<Rightarrow> diff_at (p @ [Key k]) a b
      | None \<Rightarrow> [Removed (p @ [Key k]) a]) @ diff_members p as bs"
| "diff_items p i [] [] = []"
| "diff_items p i (x # xs) (y # ys) = diff_at (p @ [Index i]) x y @ diff_items p (Suc i) xs ys"
| "diff_items p i [] (y # ys) = ArrayChange p i (Added [] y) # diff_items p (Suc i) [] ys"
| "diff_items p i (x # xs) [] = ArrayChange p i (Removed [] x) # diff_items p (Suc i) xs []"

definition diff :: "'n json \<Rightarrow> 'n json \<Rightarrow> 'n diff_entry list" where
  "diff a b = diff_at [] a b"

text \<open>
  The form in which \<^verbatim>\<open>compareSchemasOfType\<close> receives the result: the package returns
  \<^verbatim>\<open>undefined\<close> when there is no difference, which the caller's \<^verbatim>\<open>differences || []\<close>
  and \<^verbatim>\<open>!differences\<close> provide for.
\<close>

definition deep_diff :: "'n json \<Rightarrow> 'n json \<Rightarrow> 'n diff_entry list option" where
  "deep_diff a b = (if diff a b = [] then None else Some (diff a b))"

section \<open>Structural equality up to order\<close>

text \<open>
  What the specification calls "structurally equal ignoring object-key order and
  array-element order": the content of a value, with an array as the multiset of its
  elements' contents and an object as the set of its properties.
\<close>

datatype 'n content =
    CNull
  | CBool bool
  | CNum 'n
  | CStr jstring
  | CArr "'n content multiset"
  | CObj "(jstring \<times> 'n content) fset"

fun content_of :: "'n json \<Rightarrow> 'n content" where
  "content_of JNull = CNull"
| "content_of (JBool b) = CBool b"
| "content_of (JNum n) = CNum n"
| "content_of (JStr s) = CStr s"
| "content_of (JArr xs) = CArr (mset (map content_of xs))"
| "content_of (JObj kvs) = CObj (fset_of_list (map (\<lambda>(k, v). (k, content_of v)) kvs))"

definition same_content :: "'n json \<Rightarrow> 'n json \<Rightarrow> bool" where
  "same_content a b \<longleftrightarrow> content_of a = content_of b"

section \<open>The HTML canonicalizer\<close>

text \<open>
  The document tree of the DOM library: an element has a tag name, attributes and child
  nodes; text, comments and directives are leaves.
\<close>

datatype node =
    Element jstring "(jstring \<times> jstring) list" "node list"
  | Text jstring
  | Comment jstring
  | Directive jstring

fun is_element :: "node \<Rightarrow> bool" where
  "is_element (Element n as cs) = True"
| "is_element x = False"

fun tag_name :: "node \<Rightarrow> jstring" where
  "tag_name (Element n as cs) = n"
| "tag_name x = []"

fun attribs :: "node \<Rightarrow> (jstring \<times> jstring) list" where
  "attribs (Element n as cs) = as"
| "attribs x = []"

fun children :: "node \<Rightarrow> node list" where
  "children (Element n as cs) = cs"
| "children x = []"

text \<open>\<^verbatim>\<open>$(el).attr(name)\<close>: the attribute's value, or \<^verbatim>\<open>undefined\<close>.\<close>

definition attr :: "node \<Rightarrow> jstring \<Rightarrow> jstring option" where
  "attr el name = map_of (attribs el) name"

text \<open>
  The \<^verbatim>\<open>type\<close> field of an element node, which depends on the tag name only.
\<close>

datatype elem_type = TagType | ScriptType | StyleType

definition element_type :: "jstring \<Rightarrow> elem_type" where
  "element_type n =
     (if n = lit ''script'' then ScriptType else if n = lit ''style'' then StyleType else TagType)"

text \<open>
  White space as \<^verbatim>\<open>String.prototype.trim\<close> and the class \<^verbatim>\<open>\s\<close> of regular expressions know
  it; \<^verbatim>\<open>s.trim()\<close>; and \<^verbatim>\<open>s.split(/\s+/)\<close>, which cuts a string at every maximal run of white
  space (the empty string gives one empty part).
\<close>

definition is_space :: "16 word \<Rightarrow> bool" where
  "is_space c \<longleftrightarrow>
     c \<in> set [9, 10, 11, 12, 13, 32, 0xA0, 0x1680, 0x2028, 0x2029, 0x202F, 0x205F, 0x3000, 0xFEFF]
     \<or> (0x2000 \<le> c \<and> c \<le> 0x200A)"

definition trim :: "jstring \<Rightarrow> jstring" where
  "trim s = rev (dropWhile is_space (rev (dropWhile is_space s)))"

function split_space :: "jstring \<Rightarrow> jstring list" where
  "split_space [] = [[]]"
| "split_space (c # s) =
     (if is_space c then [] # split_space (dropWhile is_space s)
      else case split_space s of p # ps \<Rightarrow> (c # p) # ps | [] \<Rightarrow> [[c]])"
  by pat_completeness auto

termination
  by (relation "measure length") (auto simp: less_Suc_eq_le length_dropWhile_le)

text \<open>
  \<^verbatim>\<open>removeAttr(name)\<close> of the DOM library takes a list of attribute names separated by
  white space: it splits its argument with \<^verbatim>\<open>splitNames\<close>
  (\<^verbatim>\<open>names ? names.trim().split(/\s+/) : []\<close>) and deletes each of the names from the
  attributes of the element.
\<close>

definition splitNames :: "jstring \<Rightarrow> jstring list" where
  "splitNames names = (if names = [] then [] else split_space (trim names))"

definition removeAttribute :: "jstring \<Rightarrow> (jstring \<times> jstring) list \<Rightarrow> (jstring \<times> jstring) list" where
  "removeAttribute name as = filter (\<lambda>(a, v). a \<noteq> name) as"

definition removeAttr :: "jstring \<Rightarrow> (jstring \<times> jstring) list \<Rightarrow> (jstring \<times> jstring) list" where
  "removeAttr name as = foldl (\<lambda>as attrName. removeAttribute attrName as) as (splitNames name)"

text \<open>
  A change of the attributes made on every element of a tree.  \<^verbatim>\<open>$("[class]")\<close> selects
  the elements that carry the attribute \<^verbatim>\<open>class\<close>; \<^verbatim>\<open>removeAttr("class")\<close> changes nothing on
  any other element, so the model applies it to every element.
\<close>

fun update_attribs ::
  "((jstring \<times> jstring) list \<Rightarrow> (jstring \<times> jstring) list) \<Rightarrow> node \<Rightarrow> node" where
  "update_attribs f (Element n as cs) = Element n (f as) (map (update_attribs f) cs)"
| "update_attribs f x = x"

text \<open>
  \<^verbatim>\<open>$(selector).each(... $(el).remove() ...)\<close>: every element that satisfies \<open>P\<close> leaves the
  tree together with its subtree.
\<close>

fun remove_from :: "(node \<Rightarrow> bool) \<Rightarrow> node \<Rightarrow> node" where
  "remove_from P (Element n as cs) =
     Element n as (map (remove_from P) (filter (\<lambda>c. \<not> P c) cs))"
| "remove_from P x = x"

definition remove_elements :: "(node \<Rightarrow> bool) \<Rightarrow> node list \<Rightarrow> node list" where
  "remove_elements P doc = map (remove_from P) (filter (\<lambda>c. \<not> P c) doc)"

definition starts_with :: "jstring \<Rightarrow> jstring \<Rightarrow> bool" where
  "starts_with s p \<longleftrightarrow> take (length p) s = p"

text \<open>
  The body of the loop over \<^verbatim>\<open>$("*")\<close>: the names of the element's attributes are listed
  first, then \<^verbatim>\<open>removeAttr\<close> is called with each name that starts with \<^verbatim>\<open>data-\<close>.  The
  second function is the same loop in the body of the loop over \<^verbatim>\<open>$("svg")\<close>, which
  calls \<^verbatim>\<open>removeAttr\<close> with every name.
\<close>

definition remove_data_attribs :: "(jstring \<times> jstring) list \<Rightarrow> (jstring \<times> jstring) list" where
  "remove_data_attribs as =
     foldl (\<lambda>as attr. if starts_with attr (lit ''data-'') then removeAttr attr as else as)
       as (map fst as)"

definition remove_all_attribs :: "(jstring \<times> jstring) list \<Rightarrow> (jstring \<times> jstring) list" where
  "remove_all_attribs as = foldl (\<lambda>as attr. removeAttr attr as) as (map fst as)"

text \<open>
  The loop over \<^verbatim>\<open>$("svg")\<close>.  \<^verbatim>\<open>$(el).children()\<close> selects the element children of a node,
  so \<^verbatim>\<open>$(el).children().remove()\<close> leaves the text and comment children in place.  The
  elements are visited in document order, so an \<^verbatim>\<open>svg\<close> nested in another has left the tree
  when its turn comes.
\<close>

fun empty_svg :: "node \<Rightarrow> node" where
  "empty_svg (Element n as cs) =
     (if n = lit ''svg'' \<and> element_type n = TagType
      then Element n (remove_all_attribs as) (filter (\<lambda>c. \<not> is_element c) cs)
      else Element n as (map empty_svg cs))"
| "empty_svg x = x"

text \<open>
  The steps of \<^verbatim>\<open>transformHtml\<close> between \<^verbatim>\<open>load(html)\<close> and \<^verbatim>\<open>$.html()\<close>, on the list of
  the document's top-level nodes.  The regular-expression pass over the text before
  parsing, and the serialization and formatting of the result, are outside this model.
\<close>

definition transformHtml_tree :: "node list \<Rightarrow> node list" where
  "transformHtml_tree doc =
     (let d1 = map (update_attribs (removeAttr (lit ''class''))) doc;
          d2 = map (update_attribs (removeAttr (lit ''srcset''))) d1;
          d3 = map (update_attribs (removeAttr (lit ''imagesrcset''))) d2;
          d4 = map (update_attribs (removeAttr (lit ''style''))) d3;
          d5 = map (update_attribs (removeAttr (lit ''onclick''))) d4;
          d6 = map (update_attribs remove_data_attribs) d5;
          d7 = remove_elements (\<lambda>el. is_element el \<and> tag_name el = lit ''script'' \<and>
                 attr el (lit ''type'') \<noteq> Some (lit ''application/ld+json'')) d6;
          d8 = remove_elements (\<lambda>el. is_element el \<and> tag_name el = lit ''style'') d7;
          d9 = remove_elements (\<lambda>el. is_element el \<and> tag_name el = lit ''link'' \<and>
                 attr el (lit ''rel'') \<noteq> Some (lit ''canonical'')) d8;
          d10 = remove_elements (\<lambda>el. is_element el \<and> tag_name el = lit ''template'') d9
      in map empty_svg d10)"

text \<open>All elements of a tree, the root included, and all elements of a document.\<close>

fun elements_of :: "node \<Rightarrow> node list" where
  "elements_of (Element n as cs) = Element n as cs # concat (map elements_of cs)"
| "elements_of x = []"

definition all_elements :: "node list \<Rightarrow> node list" where
  "all_elements doc = concat (map elements_of doc)"

text \<open>An attribute name that \<^verbatim>\<open>splitNames\<close> leaves whole: not empty and free of white space.\<close>

definition plain_name :: "jstring \<Rightarrow> bool" where
  "plain_name a \<longleftrightarrow> a \<noteq> [] \<and> (\<forall>c \<in> set a. \<not> is_space c)"

section \<open>Auxiliary notions\<close>

text \<open>What one block contributes to the loop of \<^verbatim>\<open>extractJsonLdSchemas\<close>.\<close>

definition block_schemas :: "'n host \<Rightarrow> jstring \<Rightarrow> 'n json list" where
  "block_schemas h content =
     (if content = [] then []
      else case json_parse h content of
        None \<Rightarrow> []
      | Some (JArr parsed) \<Rightarrow> parsed
      | Some parsed \<Rightarrow> [parsed])"

definition block_warnings :: "'n host \<Rightarrow> jstring \<Rightarrow> jstring \<Rightarrow> jstring list" where
  "block_warnings h u content =
     (if content \<noteq> [] \<and> json_parse h content = None
      then [lit ''Warning: Failed to parse JSON-LD schema in '' @ u @ lit '':'']
      else [])"

text \<open>
  The object that \<^verbatim>\<open>normalizeSchema\<close> builds from a list of keys, the place of a key in the
  enumeration order of an object's properties, and two invariants of the built object.
\<close>

definition key_rank :: "jstring \<Rightarrow> nat \<times> nat \<times> jstring" where
  "key_rank k = (if is_array_index k then (0, parse_nat k, []) else (1, 0, k))"

definition build :: "(jstring \<Rightarrow> 'v) \<Rightarrow> jstring list \<Rightarrow> (jstring \<times> 'v) list" where
  "build f ks = foldl (\<lambda>normalized key. obj_put key (f key) normalized) [] ks"

definition rank_sorted :: "(jstring \<times> 'v) list \<Rightarrow> bool" where
  "rank_sorted kvs \<longleftrightarrow> sorted_wrt (\<lambda>a b. key_rank (fst a) < key_rank (fst b)) kvs"

definition values_from :: "(jstring \<Rightarrow> 'v) \<Rightarrow> (jstring \<times> 'v) list \<Rightarrow> bool" where
  "values_from f kvs \<longleftrightarrow> (\<forall>(k, v) \<in> set kvs. v = f k)"

text \<open>
  No two distinct elements of a list are reported as equal by the comparison of their
  serialized forms.
\<close>

definition tie_free :: "'n host \<Rightarrow> 'n json list \<Rightarrow> bool" where
  "tie_free h xs \<longleftrightarrow>
     (\<forall>a \<in> set xs. \<forall>b \<in> set xs.
        localeCompare h (stringify h a) (stringify h b) = 0 \<longrightarrow> a = b)"

text \<open>
  An element after a step of the HTML canonicalizer and the element it comes from: the
  same tag, and the same children that are not elements.
\<close>

definition comes_from :: "node \<Rightarrow> node \<Rightarrow> bool" where
  "comes_from e e0 \<longleftrightarrow>
     is_element e0 \<and> tag_name e = tag_name e0 \<and>
     filter (\<lambda>c. \<not> is_element c) (children e) = filter (\<lambda>c. \<not> is_element c) (children e0)"

section \<open>Example inputs\<close>

text \<open>
  The host of the examples.  Its numbers are the integers from 0 to \<open>2^32 - 1\<close>, which
  the language prints in plain decimal digits.  \<open>example_parse\<close> stands for \<^verbatim>\<open>JSON.parse\<close>:
  it gives the value of three JSON texts and rejects every other text, among them the
  empty text and \<^verbatim>\<open>{not json\<close>.
\<close>

definition example_parse :: "jstring \<Rightarrow> 32 word json option" where
  "example_parse = map_of
     [(lit ''{\"@type\":\"Product\",\"name\":\"Old\"}'',
       JObj [(lit ''@type'', JStr (lit ''Product'')), (lit ''name'', JStr (lit ''Old''))]),
      (lit ''{\"@type\":\"Product\",\"name\":\"New\"}'',
       JObj [(lit ''@type'', JStr (lit ''Product'')), (lit ''name'', JStr (lit ''New''))]),
      (lit ''[{\"@type\":\"Offer\"},{\"@type\":\"Offer\"}]'',
       JArr [JObj [(lit ''@type'', JStr (lit ''Offer''))], JObj [(lit ''@type'', JStr (lit ''Offer''))]])]"

definition example_host :: "32 word host" where
  "example_host =
     \<lparr>localeCompare = root_collation,
      number_to_json = (\<lambda>n. digits (unat n)),
      number_to_string = (\<lambda>n. digits (unat n)),
      number_is_truthy = (\<lambda>n. n \<noteq> 0),
      json_parse = example_parse\<rparr>"

definition product_old :: "32 word json" where
  "product_old = JObj [(lit ''@type'', JStr (lit ''Product'')), (lit ''name'', JStr (lit ''Old''))]"

definition product_new :: "32 word json" where
  "product_new = JObj [(lit ''@type'', JStr (lit ''Product'')), (lit ''name'', JStr (lit ''New''))]"

definition offer :: "32 word json" where
  "offer = JObj [(lit ''@type'', JStr (lit ''Offer''))]"

definition page_old :: "32 word JsonLdSchema" where
  "page_old = \<lparr>url = lit ''https://a.example/'', schemas = [product_old],
                schemasByType = [(lit ''Product'', [product_old])]\<rparr>"

definition page_new :: "32 word JsonLdSchema" where
  "page_new = \<lparr>url = lit ''https://b.example/'', schemas = [product_new],
                schemasByType = [(lit ''Product'', [product_new])]\<rparr>"

text \<open>
  A document with an \<^verbatim>\<open>svg\<close> element that holds a text, an element and a comment, and has
  an attribute whose name contains a no-break space (U+00A0), which ends an attribute
  name neither in the HTML syntax nor for the parser.
\<close>

definition spaced_name :: jstring where
  "spaced_name = lit ''aria'' @ [0xA0] @ lit ''label''"

definition example_doc :: "node list" where
  "example_doc =
     [Element (lit ''div'') [(lit ''class'', lit ''icon''), (lit ''data-id'', lit ''7'')]
        [Element (lit ''svg'') [(lit ''width'', lit ''24''), (spaced_name, lit ''Menu'')]
           [Text (lit ''menu''),
            Element (lit ''path'') [(lit ''d'', lit ''M0 0'')] [],
            Comment (lit ''?icon?'')]]]"

text \<open>
  Two schemas that differ only in the order of an array.  Its two entries are the letter
  A WITH RING ABOVE as U+212B (ANGSTROM SIGN) and as U+00C5, which are canonically
  equivalent: the language requires \<^verbatim>\<open>localeCompare\<close> to return 0 for them.
\<close>

definition angstrom_first :: "32 word json" where
  "angstrom_first =
     JObj [(lit ''@type'', JStr (lit ''Thing'')), (lit ''name'', JArr [JStr [0x212B], JStr [0xC5]])]"

definition angstrom_last :: "32 word json" where
  "angstrom_last =
     JObj [(lit ''@type'', JStr (lit ''Thing'')), (lit ''name'', JArr [JStr [0xC5], JStr [0x212B]])]"

section \<open>Rules for evaluating concrete inputs\<close>

lemma digits_numeral [simp]:
  "digits (numeral n) =
     (if numeral n < (10::nat) then [48 + of_nat (numeral n)]
      else digits (numeral n div 10) @ [48 + of_nat (numeral n mod 10)])"
  by (subst digits.simps) simp

lemma digits_0 [simp]: "digits 0 = [48]"
  by (subst digits.simps) simp

lemma unat_of_char [simp]: "unat (of_char c :: 16 word) = of_char c"
proof -
  have "(of_char c :: nat) mod 256 = of_char c" by simp
  then have "(of_char c :: nat) < 256"
    by (metis mod_less_divisor zero_less_numeral)
  then have "(of_char c :: nat) < 65536" by linarith
  then have "(of_char c :: nat) < 2 ^ LENGTH(16)" by simp
  then have "unat (of_nat (of_char c) :: 16 word) = of_char c"
    by (rule of_nat_inverse [OF refl])
  then show ?thesis by (simp only: of_nat_of_char)
qed

lemma word_of_char_eq_iff [simp]: "(of_char c :: 16 word) = of_char d \<longleftrightarrow> c = d"
proof
  assume "(of_char c :: 16 word) = of_char d"
  then have "unat (of_char c :: 16 word) = unat (of_char d :: 16 word)" by simp
  then show "c = d" by (simp only: unat_of_char of_char_eq_iff)
qed simp

lemma inj_word_of_char: "inj (of_char :: char \<Rightarrow> 16 word)"
  by (rule injI) simp

lemma lit_eq_iff [simp]: "lit s = lit t \<longleftrightarrow> s = t"
  unfolding lit_def by (rule inj_map_eq_map [OF inj_word_of_char])

lemma lit_Nil_iff [simp]: "lit s = [] \<longleftrightarrow> s = []"
  by (simp add: lit_def)

lemma length_lit [simp]: "length (lit s) = length s"
  by (simp add: lit_def)

lemma take_lit: "take n (lit s) = lit (take n s)"
  by (simp add: lit_def take_map)

lemma starts_with_lit [simp]: "starts_with (lit s) (lit p) \<longleftrightarrow> take (length p) s = p"
  by (simp add: starts_with_def take_lit)

lemmas eval_string = lit_def quote_def escape_unit_def is_high_surrogate_def
  is_low_surrogate_def unicode_escape_def hexdigit_def example_host_def

lemmas eval_collation = root_collation_def collation_key_def primary_weight_def
  secondary_weight_def tertiary_weight_def collation_table_def code_unit_compare_def

lemmas eval_object = obj_put_def obj_get_def is_array_index_def parse_nat_def

section \<open>Type keys: properties\<close>

lemma those_map_Some [simp]: "those (map Some xs) = Some xs"
  by (induction xs) auto

lemma insort_key_fst_pair:
  "insort_key fst (s, f s) (map (\<lambda>s. (s, f s)) ts) = map (\<lambda>s. (s, f s)) (insort s ts)"
  by (induction ts) auto

lemma sort_key_fst_pair:
  "sort_key fst (map (\<lambda>s. (s, f s)) ss) = map (\<lambda>s. (s, f s)) (sort ss)"
  by (induction ss) (auto simp: insort_key_fst_pair)

lemma sort_short: "length ss \<le> 1 \<Longrightarrow> sort ss = ss"
  by (cases ss) auto

lemma sort_default_strings: "sort_default h (map JStr ss) = Some (map JStr (sort ss))"
proof -
  have pairs: "zip ss (map JStr ss) = map (\<lambda>s. (s, JStr s)) ss"
    by (induction ss) auto
  have "map snd (sort_key fst (zip ss (map JStr ss))) =
        map snd (map (\<lambda>s. (s, JStr s)) (sort ss))"
    by (simp only: pairs sort_key_fst_pair)
  also have "\<dots> = map JStr (sort ss)"
    by (simp add: comp_def)
  finally have sorted: "map snd (sort_key fst (zip ss (map JStr ss))) = map JStr (sort ss)" .
  have keys: "those (map (toString h) (map JStr ss)) = Some ss"
    by (simp add: comp_def)
  show ?thesis
    unfolding sort_default_def keys by (simp add: sorted sort_short)
qed

lemma join_elems_strings: "join_elems h sep (map JStr ss) = Some (join sep ss)"
  by (simp add: join_elems_def comp_def)

lemma sort_mset_cong: "mset ss = mset ss' \<Longrightarrow> sort ss = sort (ss' :: jstring list)"
  by (metis properties_for_sort mset_sort sorted_sort)

text \<open>
  C5 (as amended).  A string-valued \<^verbatim>\<open>@type\<close> is the type key, and the schema is left as
  it was.  An array of strings gives its entries sorted by code units and joined with a
  comma and a space, whatever their order in the array; the call also leaves that array
  sorted inside the schema.  A schema with no \<^verbatim>\<open>@type\<close> property gives the key
  \<^verbatim>\<open>unknown\<close> and is left as it was.  In each of these cases the call returns.
\<close>

theorem getSchemaType_keys:
  "(map_of kvs (lit ''@type'') = Some (JStr s) \<longrightarrow>
      getSchemaType h (JObj kvs) = Some (s, JObj kvs)) \<and>
   (map_of kvs (lit ''@type'') = Some (JArr (map JStr ss)) \<longrightarrow>
      getSchemaType h (JObj kvs) =
        Some (join (lit '', '') (sort ss),
              set_prop (JObj kvs) (lit ''@type'') (JArr (map JStr (sort ss))))) \<and>
   (map_of kvs (lit ''@type'') = Some (JArr (map JStr ss)) \<and>
    map_of kvs' (lit ''@type'') = Some (JArr (map JStr ss')) \<and> mset ss = mset ss' \<longrightarrow>
      map_option fst (getSchemaType h (JObj kvs)) =
      map_option fst (getSchemaType h (JObj kvs'))) \<and>
   (get_prop v (lit ''@type'') = None \<longrightarrow> getSchemaType h v = Some (lit ''unknown'', v))"
  by (auto simp: getSchemaType_def sort_default_strings join_elems_strings
      dest: sort_mset_cong)

theorem getSchemaType_keys_witness:
  "getSchemaType example_host (JObj [(lit ''@type'', JStr (lit ''Product''))]) =
     Some (lit ''Product'', JObj [(lit ''@type'', JStr (lit ''Product''))]) \<and>
   getSchemaType example_host
       (JObj [(lit ''@type'', JArr [JStr (lit ''Product''), JStr (lit ''Book'')])]) =
     Some (lit ''Book, Product'',
           JObj [(lit ''@type'', JArr [JStr (lit ''Book''), JStr (lit ''Product'')])]) \<and>
   map_option fst (getSchemaType example_host
       (JObj [(lit ''@type'', JArr [JStr (lit ''Book''), JStr (lit ''Product'')])])) =
     map_option fst (getSchemaType example_host
       (JObj [(lit ''@type'', JArr [JStr (lit ''Product''), JStr (lit ''Book'')])])) \<and>
   getSchemaType example_host (JObj [(lit ''name'', JStr (lit ''x''))]) =
     Some (lit ''unknown'', JObj [(lit ''name'', JStr (lit ''x''))])"
  using
    getSchemaType_keys [of "[(lit ''@type'', JStr (lit ''Product''))]" "lit ''Product''"
      example_host "[lit ''Product'', lit ''Book'']"
      "[(lit ''@type'', JArr [JStr (lit ''Book''), JStr (lit ''Product'')])]"
      "[lit ''Book'', lit ''Product'']" "JObj [(lit ''name'', JStr (lit ''x''))]"]
    getSchemaType_keys [of "[(lit ''@type'', JArr [JStr (lit ''Product''), JStr (lit ''Book'')])]" "[]"
      example_host "[lit ''Product'', lit ''Book'']"
      "[(lit ''@type'', JArr [JStr (lit ''Book''), JStr (lit ''Product'')])]"
      "[lit ''Book'', lit ''Product'']" JNull]
  by (simp add: lit_def getSchemaType_def sort_default_def join_elems_def)

text \<open>
  The claim as stated calls the derivation pure.  On a schema whose \<^verbatim>\<open>@type\<close> array is
  not already sorted the call changes the schema.
\<close>

theorem getSchemaType_not_pure:
  "map_option snd (getSchemaType example_host
       (JObj [(lit ''@type'', JArr [JStr (lit ''Product''), JStr (lit ''Book'')])])) =
     Some (JObj [(lit ''@type'', JArr [JStr (lit ''Book''), JStr (lit ''Product'')])]) \<and>
   JObj [(lit ''@type'', JArr [JStr (lit ''Book''), JStr (lit ''Product'')])] \<noteq>
     (JObj [(lit ''@type'', JArr [JStr (lit ''Product''), JStr (lit ''Book'')])] :: 32 word json)"
  by (simp add: getSchemaType_def sort_default_def join_elems_def lit_def)

text \<open>
  The conversion of an entry can throw: an entry that is an object with an own property
  \<^verbatim>\<open>toString\<close> makes the call end with a \<^verbatim>\<open>TypeError\<close>.
\<close>

lemma getSchemaType_throws:
  "getSchemaType example_host
     (JObj [(lit ''@type'', JArr [JObj [(lit ''toString'', JNull)]])]) = None"
  by (simp add: getSchemaType_def sort_default_def join_elems_def lit_def)

section \<open>Sorting: properties\<close>

lemma mset_insert_by [simp]: "mset (insert_by cmp x xs) = add_mset x (mset xs)"
  by (induction xs) auto

lemma mset_sort_by [simp]: "mset (sort_by cmp xs) = mset xs"
  by (induction xs) (auto simp: sort_by_def)

lemma set_insert_by [simp]: "set (insert_by cmp x xs) = insert x (set xs)"
  by (induction xs) auto

lemma set_sort_by [simp]: "set (sort_by cmp xs) = set xs"
  by (induction xs) (auto simp: sort_by_def)

lemma consistent_total:
  assumes "consistent_comparator cmp" "0 < cmp a b"
  shows "cmp b a \<le> 0"
proof -
  have "(cmp b a < 0) = (0 < cmp a b)"
    using assms(1) unfolding consistent_comparator_def by blast
  with assms(2) show ?thesis by simp
qed

lemma consistent_trans:
  "consistent_comparator cmp \<Longrightarrow> cmp a b \<le> 0 \<Longrightarrow> cmp b c \<le> 0 \<Longrightarrow> cmp a c \<le> 0"
  unfolding consistent_comparator_def by blast

lemma consistent_refl:
  assumes "consistent_comparator cmp"
  shows "cmp a a = 0"
proof -
  have "(cmp a a < 0) = (0 < cmp a a)"
    using assms unfolding consistent_comparator_def by blast
  then show ?thesis by arith
qed

lemma sorted_insert_by:
  assumes "consistent_comparator cmp" "sorted_wrt (\<lambda>a b. cmp a b \<le> 0) xs"
  shows "sorted_wrt (\<lambda>a b. cmp a b \<le> 0) (insert_by cmp x xs)"
  using assms(2)
proof (induction xs)
  case Nil
  then show ?case by simp
next
  case (Cons y ys)
  show ?case
  proof (cases "cmp x y \<le> 0")
    case True
    have "cmp x z \<le> 0" if "z \<in> set ys" for z
      using Cons.prems that True consistent_trans [OF assms(1)] by auto
    with True Cons.prems show ?thesis by auto
  next
    case False
    then have "cmp y x \<le> 0" using consistent_total [OF assms(1)] by simp
    with False Cons show ?thesis by auto
  qed
qed

lemma sorted_sort_by:
  "consistent_comparator cmp \<Longrightarrow> sorted_wrt (\<lambda>a b. cmp a b \<le> 0) (sort_by cmp xs)"
  by (induction xs) (auto simp: sort_by_def intro: sorted_insert_by)

lemma consistent_on_serialized:
  "consistent_comparator lc \<Longrightarrow> consistent_comparator (\<lambda>a b. lc (f a) (f b))"
  unfolding consistent_comparator_def by blast

lemma key_comparator_consistent:
  fixes key :: "'a \<Rightarrow> 'k::linorder"
  shows "consistent_comparator
           (\<lambda>s t. if key s < key t then - 1 else if key t < key s then 1 else (0::int))"
  unfolding consistent_comparator_def by auto

lemma root_collation_consistent: "consistent_comparator root_collation"
  using key_comparator_consistent [of collation_key]
  by (simp add: root_collation_def [abs_def])

section \<open>The schema canonicalizer: properties\<close>

text \<open>
  C1 (as amended).  On an array the canonicalizer canonicalizes each element and returns
  those canonical forms in ascending order of the host's locale-sensitive comparison
  \<^verbatim>\<open>localeCompare\<close> of their \<^verbatim>\<open>JSON.stringify\<close> forms, for every consistent comparison and
  every printing of numbers the host may provide.
\<close>

theorem normalizeSchema_array_sorted:
  assumes "consistent_comparator (localeCompare h)"
  shows "\<exists>ys. normalizeSchema h (JArr xs) = JArr ys \<and>
              mset ys = mset (map (normalizeSchema h) xs) \<and>
              sorted_wrt (\<lambda>a b. localeCompare h (stringify h a) (stringify h b) \<le> 0) ys"
  using sorted_sort_by [OF consistent_on_serialized [OF assms, of "stringify h"]] by simp

lemma example_host_consistent: "consistent_comparator (localeCompare example_host)"
  by (simp add: example_host_def root_collation_consistent)

lemma normalizeSchema_example_mixed:
  "normalizeSchema example_host (JArr [JStr (lit ''b''), JNum 7, JStr (lit ''B'')]) =
     JArr [JStr (lit ''b''), JStr (lit ''B''), JNum 7]"
  by (simp add: sort_by_def eval_string eval_collation)

theorem normalizeSchema_array_sorted_witness:
  "consistent_comparator (localeCompare example_host) \<and>
   (\<exists>ys. normalizeSchema example_host (JArr [JStr (lit ''b''), JNum 7, JStr (lit ''B'')]) = JArr ys \<and>
         mset ys =
           mset (map (normalizeSchema example_host) [JStr (lit ''b''), JNum 7, JStr (lit ''B'')]) \<and>
         sorted_wrt
           (\<lambda>a b. localeCompare example_host (stringify example_host a) (stringify example_host b) \<le> 0)
           ys) \<and>
   normalizeSchema example_host (JArr [JStr (lit ''b''), JNum 7, JStr (lit ''B'')]) =
     JArr [JStr (lit ''b''), JStr (lit ''B''), JNum 7]"
  using
    normalizeSchema_array_sorted [OF example_host_consistent,
      of "[JStr (lit ''b''), JNum 7, JStr (lit ''B'')]"]
    example_host_consistent normalizeSchema_example_mixed
  by simp

text \<open>
  The claim as stated takes the comparison to be code-unit order.  Under the host's
  collation \<^verbatim>\<open>"a"\<close> precedes \<^verbatim>\<open>"B"\<close>, so the canonicalizer leaves \<^verbatim>\<open>["a","B"]\<close> as it is,
  while code-unit order would give \<^verbatim>\<open>["B","a"]\<close>.
\<close>

theorem normalizeSchema_not_code_unit_order:
  "normalizeSchema example_host (JArr [JStr (lit ''a''), JStr (lit ''B'')]) =
     JArr [JStr (lit ''a''), JStr (lit ''B'')] \<and>
   normalizeSchema (example_host\<lparr>localeCompare := code_unit_compare\<rparr>)
       (JArr [JStr (lit ''a''), JStr (lit ''B'')]) =
     JArr [JStr (lit ''B''), JStr (lit ''a'')]"
  by (simp add: sort_by_def eval_string eval_collation)

section \<open>Objects built by the canonicalizer\<close>

lemma array_index_digits: "is_array_index k \<Longrightarrow> digits (parse_nat k) = k"
  by (simp add: is_array_index_def)

lemma key_rank_index: "is_array_index k \<Longrightarrow> key_rank k = (0, parse_nat k, [])"
  by (simp add: key_rank_def)

lemma key_rank_other: "\<not> is_array_index k \<Longrightarrow> key_rank k = (1, 0, k)"
  by (simp add: key_rank_def)

lemma key_rank_inj:
  assumes "key_rank a = key_rank b"
  shows "a = b"
proof (cases "is_array_index a")
  case a: True
  show ?thesis
  proof (cases "is_array_index b")
    case b: True
    from assms have "parse_nat a = parse_nat b"
      by (simp add: key_rank_index [OF a] key_rank_index [OF b])
    then have "digits (parse_nat a) = digits (parse_nat b)" by (rule arg_cong)
    then show ?thesis
      unfolding array_index_digits [OF a] array_index_digits [OF b] .
  next
    case b: False
    from assms show ?thesis
      by (simp add: key_rank_index [OF a] key_rank_other [OF b])
  qed
next
  case a: False
  show ?thesis
  proof (cases "is_array_index b")
    case b: True
    from assms show ?thesis
      by (simp add: key_rank_other [OF a] key_rank_index [OF b])
  next
    case b: False
    from assms show ?thesis
      by (simp add: key_rank_other [OF a] key_rank_other [OF b])
  qed
qed

lemma inj_key_rank: "inj key_rank"
  by (rule injI) (rule key_rank_inj)

lemma insert_index_test:
  assumes "is_array_index k"
  shows "(is_array_index k' \<and> parse_nat k' < parse_nat k) = (key_rank k' < key_rank k)"
proof (cases "is_array_index k'")
  case True
  then show ?thesis
    by (simp add: key_rank_index [OF assms] key_rank_index [OF True])
next
  case False
  then show ?thesis
    by (simp add: key_rank_index [OF assms] key_rank_other [OF False])
qed

lemma set_insert_index [simp]: "set (insert_index k v kvs) = insert (k, v) (set kvs)"
  by (induction kvs) (auto split: if_splits)

lemma rank_sorted_Cons:
  "rank_sorted (kv # kvs) \<longleftrightarrow>
     (\<forall>x \<in> set kvs. key_rank (fst kv) < key_rank (fst x)) \<and> rank_sorted kvs"
  by (simp add: rank_sorted_def)

lemma rank_sorted_insert_index:
  assumes "is_array_index k" "k \<notin> fst ` set kvs" "rank_sorted kvs"
  shows "rank_sorted (insert_index k v kvs)"
  using assms(2,3)
proof (induction kvs)
  case Nil
  then show ?case by (simp add: rank_sorted_def)
next
  case (Cons kv kvs)
  obtain k' v' where kv: "kv = (k', v')" by (cases kv)
  from Cons.prems have fresh: "k \<noteq> k'" "k \<notin> fst ` set kvs" and
    tail: "rank_sorted kvs" and head: "\<forall>x \<in> set kvs. key_rank k' < key_rank (fst x)"
    by (auto simp: kv rank_sorted_Cons)
  show ?case
  proof (cases "is_array_index k' \<and> parse_nat k' < parse_nat k")
    case before: True
    then have True: "key_rank k' < key_rank k"
      using insert_index_test [OF assms(1), of k'] by blast
    have eq: "insert_index k v (kv # kvs) = kv # insert_index k v kvs"
      using before by (simp add: kv)
    have "rank_sorted (insert_index k v kvs)"
      using Cons.IH fresh tail by simp
    then show ?thesis
      unfolding eq using True head by (simp add: rank_sorted_Cons kv)
  next
    case notbefore: False
    then have False: "\<not> key_rank k' < key_rank k"
      using insert_index_test [OF assms(1), of k'] by blast
    have eq: "insert_index k v (kv # kvs) = (k, v) # kv # kvs"
      using notbefore by (auto simp: kv)
    have "key_rank k \<noteq> key_rank k'" using fresh(1) key_rank_inj by blast
    with False have lt: "key_rank k < key_rank k'" by simp
    then have "\<forall>x \<in> set kvs. key_rank k < key_rank (fst x)"
      using head by (meson less_trans)
    then show ?thesis
      unfolding eq using lt Cons.prems(2) by (simp add: rank_sorted_Cons kv)
  qed
qed

lemma rank_sorted_snoc:
  assumes "rank_sorted kvs" "\<forall>x \<in> set kvs. key_rank (fst x) < key_rank k"
  shows "rank_sorted (kvs @ [(k, v)])"
  using assms by (simp add: rank_sorted_def sorted_wrt_append)

lemma build_snoc: "build f (ks @ [k]) = obj_put k (f k) (build f ks)"
  by (simp add: build_def)

lemma update_same:
  "values_from f kvs \<Longrightarrow>
   map (\<lambda>(k', v'). if k' = k then (k', f k) else (k', v')) kvs = kvs"
  unfolding values_from_def by (induction kvs) auto

lemma obj_put_cases:
  "obj_put k v kvs =
     (if k = lit ''__proto__'' then kvs
      else if k \<in> fst ` set kvs
        then map (\<lambda>(k', v'). if k' = k then (k', v) else (k', v')) kvs
      else if is_array_index k then insert_index k v kvs
      else kvs @ [(k, v)])"
  by (simp add: obj_put_def)

lemma build_canonical:
  assumes "sorted ks"
  shows "rank_sorted (build f ks) \<and>
         fst ` set (build f ks) = set ks - {lit ''__proto__''} \<and>
         values_from f (build f ks)"
  using assms
proof (induction ks rule: rev_induct)
  case Nil
  then show ?case by (simp add: build_def rank_sorted_def values_from_def)
next
  case (snoc k ks)
  let ?acc = "build f ks"
  from snoc.prems have sorted: "sorted ks" and le: "\<forall>x \<in> set ks. x \<le> k"
    by (auto simp: sorted_append)
  from snoc.IH [OF sorted] have
    rs: "rank_sorted ?acc" and keys: "fst ` set ?acc = set ks - {lit ''__proto__''}" and
    vals: "values_from f ?acc"
    by blast+
  consider (proto) "k = lit ''__proto__''"
    | (present) "k \<noteq> lit ''__proto__''" "k \<in> fst ` set ?acc"
    | (index) "k \<noteq> lit ''__proto__''" "k \<notin> fst ` set ?acc" "is_array_index k"
    | (other) "k \<noteq> lit ''__proto__''" "k \<notin> fst ` set ?acc" "\<not> is_array_index k"
    by blast
  then show ?case
  proof cases
    case proto
    then have "build f (ks @ [k]) = ?acc" by (simp add: build_snoc obj_put_def)
    then show ?thesis using rs keys vals proto by auto
  next
    case present
    then have "build f (ks @ [k]) = ?acc"
      using update_same [OF vals, of k] by (simp add: build_snoc obj_put_def)
    then show ?thesis using rs keys vals present by auto
  next
    case index
    then have eq: "build f (ks @ [k]) = insert_index k (f k) ?acc"
      by (simp add: build_snoc obj_put_def)
    have "rank_sorted (insert_index k (f k) ?acc)"
      using rank_sorted_insert_index [OF index(3) index(2) rs] .
    moreover have "fst ` set (insert_index k (f k) ?acc) = set (ks @ [k]) - {lit ''__proto__''}"
      using keys index(1) by auto
    moreover have "values_from f (insert_index k (f k) ?acc)"
      using vals by (simp add: values_from_def)
    ultimately show ?thesis unfolding eq by blast
  next
    case other
    then have eq: "build f (ks @ [k]) = ?acc @ [(k, f k)]"
      by (simp add: build_snoc obj_put_def)
    have "key_rank (fst x) < key_rank k" if "x \<in> set ?acc" for x
    proof -
      from that keys have "fst x \<in> set ks" by auto
      with le have "fst x \<le> k" by simp
      moreover have "fst x \<noteq> k" using that other(2) by auto
      ultimately have "fst x < k" by simp
      then show ?thesis
        using other(3)
        by (cases "is_array_index (fst x)")
          (simp_all add: key_rank_index key_rank_other)
    qed
    then have "rank_sorted (?acc @ [(k, f k)])"
      using rank_sorted_snoc [OF rs] by blast
    moreover have "fst ` set (?acc @ [(k, f k)]) = set (ks @ [k]) - {lit ''__proto__''}"
      using keys other(1) by auto
    moreover have "values_from f (?acc @ [(k, f k)])"
      using vals by (simp add: values_from_def)
    ultimately show ?thesis unfolding eq by blast
  qed
qed

lemma values_from_eq: "values_from f kvs \<Longrightarrow> kvs = map (\<lambda>k. (k, f k)) (map fst kvs)"
  unfolding values_from_def by (induction kvs) auto

lemma canonical_unique:
  assumes "rank_sorted A" "rank_sorted B" "fst ` set A = fst ` set B"
    and "values_from f A" "values_from f B"
  shows "A = B"
proof -
  have sa: "sorted_wrt (<) (map key_rank (map fst A))"
    using assms(1) by (simp add: rank_sorted_def sorted_wrt_map)
  have sb: "sorted_wrt (<) (map key_rank (map fst B))"
    using assms(2) by (simp add: rank_sorted_def sorted_wrt_map)
  have "set (map key_rank (map fst A)) = set (map key_rank (map fst B))"
    using assms(3) by (simp add: image_image [symmetric] del: image_image)
  then have "map key_rank (map fst A) = map key_rank (map fst B)"
    using sa sb strict_sorted_equal by blast
  then have keys: "map fst A = map fst B"
    by (rule iffD1 [OF inj_map_eq_map [OF inj_key_rank]])
  show ?thesis
    using values_from_eq [OF assms(4)] values_from_eq [OF assms(5)] keys by simp
qed

section \<open>Idempotence\<close>

lemma normalizeSchema_object:
  "normalizeSchema h (JObj kvs) =
     JObj (build (\<lambda>k. normalizeSchema h (obj_get kvs k)) (sort (map fst kvs)))"
  by (simp add: build_def)

lemma sort_by_sorted_id:
  "sorted_wrt (\<lambda>a b. cmp a b \<le> 0) ys \<Longrightarrow> sort_by cmp ys = ys"
proof (induction ys)
  case Nil
  then show ?case by (simp add: sort_by_def)
next
  case (Cons y ys)
  then have "sort_by cmp (y # ys) = insert_by cmp y ys"
    by (simp add: sort_by_def)
  also have "\<dots> = y # ys"
    using Cons.prems by (cases ys) auto
  finally show ?case .
qed

lemma build_cong:
  "(\<And>k. k \<in> set ks \<Longrightarrow> g k = f k) \<Longrightarrow> build g ks = build f ks"
  by (induction ks rule: rev_induct) (simp_all add: build_def)

lemma obj_get_values_from:
  assumes "values_from f kvs" "k \<in> fst ` set kvs"
  shows "obj_get kvs k = f k"
proof -
  from assms(2) obtain v where "map_of kvs k = Some v"
    by (metis domIff dom_map_of_conv_image_fst not_Some_eq)
  moreover then have "(k, v) \<in> set kvs" by (rule map_of_SomeD)
  ultimately show ?thesis using assms(1) by (auto simp: obj_get_def values_from_def)
qed

lemma build_rebuild:
  assumes "sorted ks"
  shows "build f (sort (map fst (build f ks))) = build f ks"
proof -
  let ?B = "build f ks"
  note B = build_canonical [OF assms, of f]
  have "sorted (sort (map fst ?B))" by simp
  note R = build_canonical [OF this, of f]
  have "fst ` set (build f (sort (map fst ?B))) = fst ` set ?B"
    using R B by auto
  then show ?thesis
    using canonical_unique [of "build f (sort (map fst ?B))" ?B f] R B by blast
qed

text \<open>
  C3.  Canonicalization is idempotent: for every JSON value, canonicalizing the canonical
  form gives the canonical form again, for every consistent comparison the host may
  provide.
\<close>

theorem normalizeSchema_idempotent:
  assumes "consistent_comparator (localeCompare h)"
  shows "normalizeSchema h (normalizeSchema h v) =
         normalizeSchema h v"
  using assms
proof (induction h v rule: normalizeSchema.induct)
  case (1 h xs)
  let ?cmp = "\<lambda>a b. localeCompare h (stringify h a) (stringify h b)"
  let ?ys = "sort_by ?cmp (map (normalizeSchema h) xs)"
  have "normalizeSchema h y = y" if "y \<in> set ?ys" for y
  proof -
    from that obtain x where "x \<in> set xs" and "y = normalizeSchema h x" by auto
    then show ?thesis using "1.IH" "1.prems" by simp
  qed
  then have "map (normalizeSchema h) ?ys = ?ys"
    by (rule map_idI)
  moreover have "sort_by ?cmp ?ys = ?ys"
    using sorted_sort_by [OF consistent_on_serialized [OF "1.prems", of "stringify h"]]
    by (rule sort_by_sorted_id)
  ultimately have "sort_by ?cmp (map (normalizeSchema h) ?ys) = ?ys" by (simp only:)
  then show ?case by (simp only: normalizeSchema.simps)
next
  case (2 h kvs)
  let ?f = "\<lambda>k. normalizeSchema h (obj_get kvs k)"
  let ?ks = "sort (map fst kvs)"
  let ?B = "build ?f ?ks"
  have sorted: "sorted ?ks" by simp
  note B = build_canonical [OF sorted, of ?f]
  have "normalizeSchema h (obj_get ?B k) = ?f k" if "k \<in> set (sort (map fst ?B))" for k
  proof -
    from that have k: "k \<in> fst ` set ?B" by simp
    then have "obj_get ?B k = ?f k"
      using obj_get_values_from B by blast
    moreover have "k \<in> set ?ks" using k B by blast
    ultimately show ?thesis using "2.IH" "2.prems" by simp
  qed
  then have "build (\<lambda>k. normalizeSchema h (obj_get ?B k)) (sort (map fst ?B)) =
             build ?f (sort (map fst ?B))"
    by (rule build_cong)
  also have "\<dots> = ?B" using build_rebuild [OF sorted] .
  finally show ?case by (simp only: normalizeSchema_object)
qed simp_all

lemma normalizeSchema_example_object:
  "normalizeSchema example_host
     (JObj [(lit ''b'', JArr [JStr (lit ''b''), JStr (lit ''a'')]), (lit ''10'', JNum 2),
            (lit ''9'', JNum 3)]) =
   JObj [(lit ''9'', JNum 3), (lit ''10'', JNum 2),
         (lit ''b'', JArr [JStr (lit ''a''), JStr (lit ''b'')])]"
  by (simp add: eval_object sort_by_def eval_string eval_collation)

theorem normalizeSchema_idempotent_witness:
  "consistent_comparator (localeCompare example_host) \<and>
   normalizeSchema example_host
     (JObj [(lit ''b'', JArr [JStr (lit ''b''), JStr (lit ''a'')]), (lit ''10'', JNum 2),
            (lit ''9'', JNum 3)]) =
   JObj [(lit ''9'', JNum 3), (lit ''10'', JNum 2),
         (lit ''b'', JArr [JStr (lit ''a''), JStr (lit ''b'')])] \<and>
   normalizeSchema example_host
     (JObj [(lit ''9'', JNum 3), (lit ''10'', JNum 2),
            (lit ''b'', JArr [JStr (lit ''a''), JStr (lit ''b'')])]) =
   JObj [(lit ''9'', JNum 3), (lit ''10'', JNum 2),
         (lit ''b'', JArr [JStr (lit ''a''), JStr (lit ''b'')])]"
  using normalizeSchema_idempotent [OF example_host_consistent,
      of "JObj [(lit ''b'', JArr [JStr (lit ''b''), JStr (lit ''a'')]), (lit ''10'', JNum 2),
            (lit ''9'', JNum 3)]"]
    example_host_consistent
  by (simp only: normalizeSchema_example_object simp_thms)

section \<open>Order-insensitivity\<close>

lemma sorted_wrt_unique:
  assumes "sorted_wrt R xs" "sorted_wrt R ys" "mset xs = mset ys"
    and "\<And>a b. a \<in> set xs \<Longrightarrow> b \<in> set xs \<Longrightarrow> R a b \<Longrightarrow> R b a \<Longrightarrow> a = b"
  shows "xs = ys"
  using assms
proof (induction xs arbitrary: ys)
  case Nil
  then show ?case by simp
next
  case (Cons x xs)
  from Cons.prems(3) obtain y ys' where ys: "ys = y # ys'"
    by (cases ys) auto
  have sets: "set (x # xs) = set (y # ys')"
    using Cons.prems(3) ys by (metis set_mset_mset)
  have "x = y"
  proof (rule ccontr)
    assume neq: "x \<noteq> y"
    then have "x \<in> set ys'" and "y \<in> set xs" using sets by auto
    then have "R y x" and "R x y"
      using Cons.prems(1,2) ys by auto
    moreover have "y \<in> set (x # xs)" using sets by auto
    ultimately show False using Cons.prems(4) [of x y] neq by auto
  qed
  moreover have "xs = ys'"
  proof (rule Cons.IH)
    show "sorted_wrt R xs" using Cons.prems(1) by simp
    show "sorted_wrt R ys'" using Cons.prems(2) ys by simp
    show "mset xs = mset ys'" using Cons.prems(3) ys \<open>x = y\<close> by simp
    show "\<And>a b. a \<in> set xs \<Longrightarrow> b \<in> set xs \<Longrightarrow> R a b \<Longrightarrow> R b a \<Longrightarrow> a = b"
      using Cons.prems(4) by auto
  qed
  ultimately show ?case using ys by simp
qed

lemma consistent_tie:
  assumes "consistent_comparator cmp" "cmp a b \<le> 0" "cmp b a \<le> 0"
  shows "cmp a b = 0"
proof -
  have "(cmp a b < 0) = (0 < cmp b a)"
    using assms(1) unfolding consistent_comparator_def by blast
  with assms(2,3) show ?thesis by arith
qed

lemma sort_by_permutation:
  assumes "consistent_comparator cmp" "mset xs = mset ys"
    and "\<forall>a \<in> set xs. \<forall>b \<in> set xs. cmp a b = 0 \<longrightarrow> a = b"
  shows "sort_by cmp xs = sort_by cmp ys"
proof (rule sorted_wrt_unique [where R = "\<lambda>a b. cmp a b \<le> 0"])
  show "sorted_wrt (\<lambda>a b. cmp a b \<le> 0) (sort_by cmp xs)"
    by (rule sorted_sort_by [OF assms(1)])
  show "sorted_wrt (\<lambda>a b. cmp a b \<le> 0) (sort_by cmp ys)"
    by (rule sorted_sort_by [OF assms(1)])
  show "mset (sort_by cmp xs) = mset (sort_by cmp ys)"
    using assms(2) by simp
  show "a = b" if "a \<in> set (sort_by cmp xs)" "b \<in> set (sort_by cmp xs)"
    "cmp a b \<le> 0" "cmp b a \<le> 0" for a b
    using that assms(3) consistent_tie [OF assms(1), of a b] by simp
qed

lemma obj_get_permutation:
  assumes "mset kvs = mset kvs'" "distinct (map fst kvs)"
  shows "obj_get kvs = obj_get kvs'"
proof -
  have "mset (map fst kvs) = mset (map fst kvs')" using assms(1) by (metis mset_map)
  then have "distinct (map fst kvs')"
    using assms(2) by (metis mset_eq_imp_distinct_iff)
  moreover have "set kvs = set kvs'" using assms(1) by (metis set_mset_mset)
  ultimately have "map_of kvs = map_of kvs'"
    using assms(2) by (simp add: map_of_inject_set)
  then show ?thesis by (simp add: obj_get_def fun_eq_iff)
qed

lemma normalizeSchema_array_permutation:
  assumes "consistent_comparator (localeCompare h)" "mset xs = mset ys"
    and "tie_free h (map (normalizeSchema h) xs)"
  shows "normalizeSchema h (JArr xs) = normalizeSchema h (JArr ys)"
proof -
  have "mset (map (normalizeSchema h) xs) = mset (map (normalizeSchema h) ys)"
    using assms(2) by (metis mset_map)
  then have "sort_by (\<lambda>a b. localeCompare h (stringify h a) (stringify h b))
               (map (normalizeSchema h) xs) =
             sort_by (\<lambda>a b. localeCompare h (stringify h a) (stringify h b))
               (map (normalizeSchema h) ys)"
    using assms(3) unfolding tie_free_def
    by (intro sort_by_permutation consistent_on_serialized [OF assms(1)]) 
  then show ?thesis by simp
qed

lemma normalizeSchema_object_permutation:
  assumes "mset kvs = mset kvs'" "distinct (map fst kvs)"
  shows "normalizeSchema h (JObj kvs) = normalizeSchema h (JObj kvs')"
proof -
  have "mset (map fst kvs) = mset (map fst kvs')" using assms(1) by (metis mset_map)
  then have "sort (map fst kvs) = sort (map fst kvs')" by (rule sort_mset_cong)
  then show ?thesis
    by (simp only: normalizeSchema_object obj_get_permutation [OF assms])
qed

lemma angstrom_tie:
  "localeCompare example_host (stringify example_host (JStr [0x212B]))
     (stringify example_host (JStr [0xC5])) = 0"
  by (simp add: eval_string eval_collation)

text \<open>
  C4.  Canonicalization is meant to give one result for every order of the same content.
  It does so in the two forms above, for an object and for an array in which no two
  distinct elements tie.  It fails on an array of two strings that the host's comparison
  reports as equal: the stable sort keeps them in the order of the input, so the two
  orders of the same array have different canonical forms.
\<close>

theorem normalizeSchema_keeps_order_of_ties:
  "normalizeSchema example_host (JArr [JStr [0x212B], JStr [0xC5]]) =
     JArr [JStr [0x212B], JStr [0xC5]] \<and>
   normalizeSchema example_host (JArr [JStr [0xC5], JStr [0x212B]]) =
     JArr [JStr [0xC5], JStr [0x212B]]"
  by (simp add: sort_by_def eval_string eval_collation)

lemma normalize_angstrom_first: "normalizeSchema example_host angstrom_first = angstrom_first"
  by (simp add: angstrom_first_def eval_object sort_by_def eval_string eval_collation)

lemma normalize_angstrom_last: "normalizeSchema example_host angstrom_last = angstrom_last"
  by (simp add: angstrom_last_def eval_object sort_by_def eval_string eval_collation)

lemma same_content_angstrom: "same_content angstrom_first angstrom_last"
  by (simp add: same_content_def angstrom_first_def angstrom_last_def add_mset_commute)

lemma diff_angstrom:
  "diff (JArr [angstrom_first]) (JArr [angstrom_last]) =
     [Edited [Index 0, Key (lit ''name''), Index 0] (JStr [0x212B]) (JStr [0xC5]),
      Edited [Index 0, Key (lit ''name''), Index 1] (JStr [0xC5]) (JStr [0x212B])]"
  by (simp add: diff_def angstrom_first_def angstrom_last_def)

text \<open>
  The canonical form of an object has no property \<^verbatim>\<open>__proto__\<close>: the assignment
  \<^verbatim>\<open>normalized["__proto__"] = ...\<close> creates none.  Two schemas that differ in that property
  only have the same canonical form, and no difference is reported.
\<close>

lemma proto_key_dropped: "normalizeSchema h (JObj [(lit ''__proto__'', v)]) = JObj []"
  by (simp add: obj_put_def)

lemma proto_change_not_reported:
  "\<not> same_content (JObj [(lit ''__proto__'', JStr (lit ''a''))] :: 32 word json)
       (JObj [(lit ''__proto__'', JStr (lit ''b''))]) \<and>
   diff (normalizeSchema example_host (JObj [(lit ''__proto__'', JStr (lit ''a''))]))
        (normalizeSchema example_host (JObj [(lit ''__proto__'', JStr (lit ''b''))])) = []"
  unfolding proto_key_dropped by (simp add: same_content_def diff_def)

text \<open>
  C2.  The comparison is meant to report no difference exactly when the two sides have the
  same content up to the order of keys and of array elements.  The two schemas below have
  the same content up to the order of an array, and their comparison reports two
  differences.
\<close>

theorem order_only_change_reported:
  "same_content (JArr [angstrom_first]) (JArr [angstrom_last]) \<and>
   diff (normalizeSchema example_host (JArr [angstrom_first]))
        (normalizeSchema example_host (JArr [angstrom_last])) =
     [Edited [Index 0, Key (lit ''name''), Index 0] (JStr [0x212B]) (JStr [0xC5]),
      Edited [Index 0, Key (lit ''name''), Index 1] (JStr [0xC5]) (JStr [0x212B])] \<and>
   \<not> identical (compareSchemasOfType deep_diff example_host (lit ''Thing'')
                  [angstrom_first] [angstrom_last])"
  using same_content_angstrom
  by (simp add: same_content_def compareSchemasOfType_def deep_diff_def sort_by_def
      normalize_angstrom_first normalize_angstrom_last diff_angstrom)

section \<open>Extraction and comparison: properties\<close>

lemma extract_block_eq:
  "extract_block h u (found, warnings) content =
     (found @ block_schemas h content, warnings @ block_warnings h u content)"
  by (auto simp: extract_block_def block_schemas_def block_warnings_def
      split: option.splits json.splits)

lemma foldl_extract_block:
  "foldl (extract_block h u) (found, warnings) blocks =
     (found @ concat (map (block_schemas h) blocks),
      warnings @ concat (map (block_warnings h u) blocks))"
  by (induction blocks arbitrary: found warnings) (auto simp: extract_block_eq)

lemma group_step_simps [simp]:
  "group_step h None x = None"
  "group_step h (Some (grouped, seen)) x =
     (case getSchemaType h x of
        None \<Rightarrow> None
      | Some (t, schema') \<Rightarrow> Some (map_push t schema' grouped, seen @ [schema']))"
  by (simp_all add: group_step_def)

lemma group_step_None: "foldl (group_step h) None xs = None"
  by (induction xs) simp_all

lemma group_step_Some:
  "foldl (group_step h) (Some (grouped, seen)) xs =
     (case those (map (getSchemaType h) xs) of
        None \<Rightarrow> None
      | Some ps \<Rightarrow>
          Some (foldl (\<lambda>grouped (t, schema). map_push t schema grouped) grouped ps,
                seen @ map snd ps))"
proof (induction xs arbitrary: grouped seen)
  case Nil
  then show ?case by simp
next
  case (Cons x xs)
  show ?case
  proof (cases "getSchemaType h x")
    case None
    then show ?thesis by (simp add: group_step_None)
  next
    case (Some p)
    obtain t schema where p: "p = (t, schema)" by (cases p)
    have "foldl (group_step h) (Some (grouped, seen)) (x # xs) =
          foldl (group_step h) (Some (map_push t schema grouped, seen @ [schema])) xs"
      using Some p by simp
    then show ?thesis
      using Some p by (simp add: Cons.IH split: option.splits)
  qed
qed

lemma groupSchemasByType_eq:
  "groupSchemasByType h xs =
     (case those (map (getSchemaType h) xs) of
        None \<Rightarrow> None
      | Some ps \<Rightarrow>
          Some (foldl (\<lambda>grouped (t, schema). map_push t schema grouped) [] ps, map snd ps))"
  using group_step_Some [of h "[]" "[]" xs]
  by (simp add: groupSchemasByType_def split: option.splits)

lemma extractJsonLdSchemas_eq:
  "extractJsonLdSchemas h blocks u =
     (case groupSchemasByType h (concat (map (block_schemas h) blocks)) of
        None \<Rightarrow> None
      | Some (byType, found') \<Rightarrow> Some \<lparr>url = u, schemas = found', schemasByType = byType\<rparr>,
      concat (map (block_warnings h u) blocks))"
  using foldl_extract_block [of h u "[]" "[]" blocks]
  by (simp add: extractJsonLdSchemas_def)

text \<open>
  C6 (as amended).  A block whose text fails to parse contributes no schema: the outcome
  of the extraction is the outcome for the document without that block, so every other
  block is still extracted.  The extraction returns exactly when every call of
  \<^verbatim>\<open>getSchemaType\<close> on the schemas of the other blocks returns, and the schemas of the result
  are those of the other blocks, in order, as these calls leave them.  When the text of the
  block is not empty, the block adds one warning, in its place among the warnings of the
  other blocks, whose text holds the URL: \<^verbatim>\<open>Warning: Failed to parse JSON-LD schema in\<close>,
  the URL and a colon.  An empty block is passed over with no warning.
\<close>

theorem malformed_block_skipped:
  assumes "json_parse h bad = None"
  shows "fst (extractJsonLdSchemas h (pre @ bad # post) u) =
           fst (extractJsonLdSchemas h (pre @ post) u) \<and>
         snd (extractJsonLdSchemas h (pre @ bad # post) u) =
           snd (extractJsonLdSchemas h pre u) @
           (if bad = [] then []
            else [lit ''Warning: Failed to parse JSON-LD schema in '' @ u @ lit '':'']) @
           snd (extractJsonLdSchemas h post u) \<and>
         (case those (map (getSchemaType h) (concat (map (block_schemas h) (pre @ post)))) of
            None \<Rightarrow> fst (extractJsonLdSchemas h (pre @ bad # post) u) = None
          | Some ps \<Rightarrow>
              (\<exists>r. fst (extractJsonLdSchemas h (pre @ bad # post) u) = Some r \<and>
                   url r = u \<and> schemas r = map snd ps))"
proof -
  have none: "block_schemas h bad = []"
    using assms by (simp add: block_schemas_def)
  have warn: "block_warnings h u bad =
      (if bad = [] then []
       else [lit ''Warning: Failed to parse JSON-LD schema in '' @ u @ lit '':''])"
    using assms by (simp add: block_warnings_def)
  have same: "concat (map (block_schemas h) (pre @ bad # post)) =
      concat (map (block_schemas h) (pre @ post))"
    using none by simp
  have "fst (extractJsonLdSchemas h (pre @ bad # post) u) =
        fst (extractJsonLdSchemas h (pre @ post) u)"
    unfolding extractJsonLdSchemas_eq same by simp
  moreover have "snd (extractJsonLdSchemas h (pre @ bad # post) u) =
      snd (extractJsonLdSchemas h pre u) @
      (if bad = [] then []
       else [lit ''Warning: Failed to parse JSON-LD schema in '' @ u @ lit '':'']) @
      snd (extractJsonLdSchemas h post u)"
    unfolding extractJsonLdSchemas_eq using warn by simp
  moreover have
    "case those (map (getSchemaType h) (concat (map (block_schemas h) (pre @ post)))) of
       None \<Rightarrow> fst (extractJsonLdSchemas h (pre @ bad # post) u) = None
     | Some ps \<Rightarrow>
         (\<exists>r. fst (extractJsonLdSchemas h (pre @ bad # post) u) = Some r \<and>
              url r = u \<and> schemas r = map snd ps)"
    unfolding extractJsonLdSchemas_eq same groupSchemasByType_eq
    by (simp split: option.splits)
  ultimately show ?thesis by (simp only: simp_thms)
qed

lemma example_extraction:
  "extractJsonLdSchemas example_host
     [lit ''{\"@type\":\"Product\",\"name\":\"Old\"}'', lit ''{not json'',
      lit ''[{\"@type\":\"Offer\"},{\"@type\":\"Offer\"}]'']
     (lit ''https://a.example/'') =
   (Some \<lparr>url = lit ''https://a.example/'',
     schemas = [product_old, offer, offer],
     schemasByType = [(lit ''Product'', [product_old]), (lit ''Offer'', [offer, offer])]\<rparr>,
    [lit ''Warning: Failed to parse JSON-LD schema in https://a.example/:''])"
  by (simp add: extractJsonLdSchemas_def extract_block_def example_host_def example_parse_def
      groupSchemasByType_def getSchemaType_def map_push_def product_old_def
      offer_def lit_def)

lemma example_extraction_clean:
  "extractJsonLdSchemas example_host
     [lit ''{\"@type\":\"Product\",\"name\":\"Old\"}'',
      lit ''[{\"@type\":\"Offer\"},{\"@type\":\"Offer\"}]'']
     (lit ''https://a.example/'') =
   (Some \<lparr>url = lit ''https://a.example/'',
     schemas = [product_old, offer, offer],
     schemasByType = [(lit ''Product'', [product_old]), (lit ''Offer'', [offer, offer])]\<rparr>,
    [])"
  by (simp add: extractJsonLdSchemas_def extract_block_def example_host_def example_parse_def
      groupSchemasByType_def getSchemaType_def map_push_def product_old_def
      offer_def lit_def)

theorem malformed_block_skipped_witness:
  "json_parse example_host (lit ''{not json'') = None \<and>
   fst (extractJsonLdSchemas example_host
     [lit ''{\"@type\":\"Product\",\"name\":\"Old\"}'', lit ''{not json'',
      lit ''[{\"@type\":\"Offer\"},{\"@type\":\"Offer\"}]'']
     (lit ''https://a.example/'')) =
   fst (extractJsonLdSchemas example_host
     [lit ''{\"@type\":\"Product\",\"name\":\"Old\"}'',
      lit ''[{\"@type\":\"Offer\"},{\"@type\":\"Offer\"}]'']
     (lit ''https://a.example/'')) \<and>
   fst (extractJsonLdSchemas example_host
     [lit ''{\"@type\":\"Product\",\"name\":\"Old\"}'', lit ''{not json'',
      lit ''[{\"@type\":\"Offer\"},{\"@type\":\"Offer\"}]'']
     (lit ''https://a.example/'')) =
   Some \<lparr>url = lit ''https://a.example/'',
     schemas = [product_old, offer, offer],
     schemasByType = [(lit ''Product'', [product_old]), (lit ''Offer'', [offer, offer])]\<rparr> \<and>
   snd (extractJsonLdSchemas example_host
     [lit ''{\"@type\":\"Product\",\"name\":\"Old\"}'', lit ''{not json'',
      lit ''[{\"@type\":\"Offer\"},{\"@type\":\"Offer\"}]'']
     (lit ''https://a.example/'')) =
   [lit ''Warning: Failed to parse JSON-LD schema in https://a.example/:'']"
proof -
  have bad: "json_parse example_host (lit ''{not json'') = None"
    by (simp add: example_host_def example_parse_def lit_def)
  show ?thesis
    using malformed_block_skipped [of example_host "lit ''{not json''"
           "[lit ''{\"@type\":\"Product\",\"name\":\"Old\"}'']"
           "[lit ''[{\"@type\":\"Offer\"},{\"@type\":\"Offer\"}]'']" "lit ''https://a.example/''"]
      bad example_extraction example_extraction_clean
    by simp
qed

text \<open>
  The claim as stated promises a warning for every block whose text fails to parse.  The
  empty text is not a JSON text, and a block with no content is passed over by the guard
  \<^verbatim>\<open>if (content)\<close> before a parse is tried: it gives no warning.
\<close>

theorem empty_block_gives_no_warning:
  "json_parse example_host [] = None \<and>
   extractJsonLdSchemas example_host [[]] (lit ''https://a.example/'') =
     (Some \<lparr>url = lit ''https://a.example/'', schemas = [], schemasByType = []\<rparr>, [])"
  by (simp add: extractJsonLdSchemas_def extract_block_def example_host_def example_parse_def
      groupSchemasByType_def lit_def)

text \<open>
  The grouping after the loop is outside the \<^verbatim>\<open>try\<close>: a well-formed block whose \<^verbatim>\<open>@type\<close>
  array holds an object with an own \<^verbatim>\<open>toString\<close> property ends the extraction with a
  \<^verbatim>\<open>TypeError\<close>.
\<close>

lemma extraction_throws:
  assumes "json_parse h content = Some (JObj [(lit ''@type'', JArr [JObj [(lit ''toString'', JNull)]])])"
    and "content \<noteq> []"
  shows "fst (extractJsonLdSchemas h [content] u) = None"
  using assms
  by (simp add: extractJsonLdSchemas_def extract_block_def groupSchemasByType_def
      getSchemaType_def sort_default_def join_elems_def lit_def)

lemma set_new_Set_aux: "set (foldl set_add s xs) = set s \<union> set xs"
  by (induction xs arbitrary: s) (auto simp: set_add_def)

lemma set_new_Set [simp]: "set (new_Set xs) = set xs"
  by (simp add: new_Set_def set_new_Set_aux)

lemma identical_iff_no_differences:
  "identical (compareSchemasOfType differ h t s1 s2) \<longleftrightarrow>
   differences (compareSchemasOfType differ h t s1 s2) = []"
  by (simp add: compareSchemasOfType_def Let_def split: option.splits)

text \<open>
  C7.  The flag \<^verbatim>\<open>allTypesIdentical\<close> of the report holds exactly when, for every type key
  of either side, the comparison of that type has an empty list of differences; the
  instance counts play no part.
\<close>

theorem allTypesIdentical_iff:
  "allTypesIdentical (compareSchemas differ h schemas1 schemas2) \<longleftrightarrow>
     (\<forall>t \<in> fst ` set (schemasByType schemas1) \<union> fst ` set (schemasByType schemas2).
        differences (compareSchemasOfType differ h t
                       (get_or_empty (schemasByType schemas1) t)
                       (get_or_empty (schemasByType schemas2) t)) = [])"
  by (auto simp: compareSchemas_def Let_def list_all_iff identical_iff_no_differences)

lemma normalize_product_old: "normalizeSchema example_host product_old = product_old"
  by (simp add: product_old_def eval_object lit_def)

lemma normalize_product_new: "normalizeSchema example_host product_new = product_new"
  by (simp add: product_new_def eval_object lit_def)

lemma diff_products:
  "diff (JArr [product_old]) (JArr [product_new]) =
     [Edited [Index 0, Key (lit ''name'')] (JStr (lit ''Old'')) (JStr (lit ''New''))]"
  by (simp add: diff_def product_old_def product_new_def lit_def)

lemma compare_products:
  "compareSchemasOfType deep_diff example_host (lit ''Product'') [product_old] [product_new] =
     \<lparr>type = lit ''Product'', count1 = 1, count2 = 1,
      differences = [Edited [Index 0, Key (lit ''name'')] (JStr (lit ''Old'')) (JStr (lit ''New''))],
      identical = False\<rparr>"
  by (simp add: compareSchemasOfType_def deep_diff_def diff_products sort_by_def
      normalize_product_old normalize_product_new)

theorem allTypesIdentical_iff_witness:
  "\<not> allTypesIdentical (compareSchemas deep_diff example_host page_old page_new) \<and>
   typeComparisons (compareSchemas deep_diff example_host page_old page_new) =
     [\<lparr>type = lit ''Product'', count1 = 1, count2 = 1,
       differences = [Edited [Index 0, Key (lit ''name'')] (JStr (lit ''Old'')) (JStr (lit ''New''))],
       identical = False\<rparr>]"
  using allTypesIdentical_iff [of deep_diff example_host page_old page_new]
  by (simp add: compareSchemas_def page_old_def page_new_def new_Set_def set_add_def
      get_or_empty_def compare_products)

section \<open>The HTML canonicalizer: properties\<close>

lemma dropWhile_none: "(\<forall>c \<in> set s. \<not> P c) \<Longrightarrow> dropWhile P s = s"
  by (cases s) auto

lemma trim_plain: "(\<forall>c \<in> set s. \<not> is_space c) \<Longrightarrow> trim s = s"
  by (simp add: trim_def dropWhile_none)

lemma split_space_plain: "(\<forall>c \<in> set s. \<not> is_space c) \<Longrightarrow> split_space s = [s]"
  by (induction s) auto

lemma split_space_parts:
  "p \<in> set (split_space s) \<Longrightarrow> c \<in> set p \<Longrightarrow> \<not> is_space c"
proof (induction s arbitrary: p rule: split_space.induct)
  case 1
  then show ?case by simp
next
  case (2 d s)
  show ?case
  proof (cases "is_space d")
    case True
    then have "p = [] \<or> p \<in> set (split_space (dropWhile is_space s))"
      using "2.prems"(1) by simp
    then show ?thesis using "2.IH"(1) [OF True] "2.prems"(2) by auto
  next
    case False
    show ?thesis
    proof (cases "split_space s")
      case Nil
      then show ?thesis using False "2.prems" by simp
    next
      case (Cons q qs)
      then have "p = d # q \<or> p \<in> set qs"
        using False "2.prems"(1) by simp
      then show ?thesis
      proof
        assume "p = d # q"
        then have "c = d \<or> c \<in> set q" using "2.prems"(2) by simp
        moreover have "q \<in> set (split_space s)" using Cons by simp
        ultimately show ?thesis using False "2.IH"(2) [OF False] by blast
      next
        assume "p \<in> set qs"
        then have "p \<in> set (split_space s)" using Cons by simp
        then show ?thesis using "2.IH"(2) [OF False] "2.prems"(2) by blast
      qed
    qed
  qed
qed

lemma splitNames_plain: "plain_name a \<Longrightarrow> splitNames a = [a]"
  by (simp add: splitNames_def plain_name_def trim_plain split_space_plain)

lemma splitNames_parts: "p \<in> set (splitNames n) \<Longrightarrow> c \<in> set p \<Longrightarrow> \<not> is_space c"
  by (auto simp: splitNames_def dest: split_space_parts split: if_splits)

lemma foldl_removeAttribute:
  "foldl (\<lambda>as attrName. removeAttribute attrName as) as ps =
     filter (\<lambda>(a, v). a \<notin> set ps) as"
proof (induction ps arbitrary: as)
  case Nil
  then show ?case by simp
next
  case (Cons p ps)
  have "filter (\<lambda>(a, v). a \<notin> set ps) (removeAttribute p as) =
        filter (\<lambda>(a, v). a \<notin> set (p # ps)) as"
    by (induction as) (auto simp: removeAttribute_def)
  then show ?case by (simp add: Cons.IH)
qed

lemma removeAttr_filter:
  "removeAttr name as = filter (\<lambda>(a, v). a \<notin> set (splitNames name)) as"
  by (simp add: removeAttr_def foldl_removeAttribute)

lemma removeAttr_plain:
  "plain_name name \<Longrightarrow> removeAttr name as = filter (\<lambda>(a, v). a \<noteq> name) as"
  by (simp add: removeAttr_filter splitNames_plain)

lemma foldl_removeAttr:
  "foldl (\<lambda>as attr. removeAttr attr as) as ns =
     filter (\<lambda>(a, v). \<forall>n \<in> set ns. a \<notin> set (splitNames n)) as"
proof (induction ns arbitrary: as)
  case Nil
  then show ?case by simp
next
  case (Cons n ns)
  have "filter (\<lambda>(a, v). \<forall>m \<in> set ns. a \<notin> set (splitNames m)) (removeAttr n as) =
        filter (\<lambda>(a, v). \<forall>m \<in> set (n # ns). a \<notin> set (splitNames m)) as"
    unfolding removeAttr_filter by (induction as) auto
  then show ?case by (simp add: Cons.IH)
qed

lemma remove_all_attribs_plain:
  assumes "(a, v) \<in> set (remove_all_attribs as)"
  shows "\<not> plain_name a"
proof
  assume "plain_name a"
  then have "a \<in> set (splitNames a)" by (simp add: splitNames_plain)
  moreover have "(a, v) \<in> set as" and "\<forall>n \<in> set (map fst as). a \<notin> set (splitNames n)"
    using assms by (auto simp: remove_all_attribs_def foldl_removeAttr)
  ultimately show False by force
qed

lemma filter_text_map:
  assumes "\<And>c. is_element (g c) = is_element c" "\<And>c. \<not> is_element c \<Longrightarrow> g c = c"
  shows "filter (\<lambda>c. \<not> is_element c) (map g cs) = filter (\<lambda>c. \<not> is_element c) cs"
  using assms by (induction cs) auto

lemma is_element_update_attribs [simp]: "is_element (update_attribs f c) = is_element c"
  by (cases c) auto

lemma update_attribs_text [simp]: "\<not> is_element c \<Longrightarrow> update_attribs f c = c"
  by (cases c) auto

lemma is_element_remove_from [simp]: "is_element (remove_from P c) = is_element c"
  by (cases c) auto

lemma remove_from_text [simp]: "\<not> is_element c \<Longrightarrow> remove_from P c = c"
  by (cases c) auto

lemma comes_from_trans: "comes_from e e1 \<Longrightarrow> comes_from e1 e0 \<Longrightarrow> comes_from e e0"
  by (simp add: comes_from_def)

lemma elements_update_attribs:
  "e \<in> set (elements_of (update_attribs f t)) \<Longrightarrow> \<exists>e0 \<in> set (elements_of t). comes_from e e0"
proof (induction t arbitrary: e)
  case (Element n as cs)
  from Element.prems consider "e = Element n (f as) (map (update_attribs f) cs)"
    | c where "c \<in> set cs" "e \<in> set (elements_of (update_attribs f c))"
    by auto
  then show ?case
  proof cases
    case 1
    then have "comes_from e (Element n as cs)"
      by (simp add: comes_from_def filter_text_map)
    then show ?thesis by auto
  next
    case 2
    then obtain e0 where "e0 \<in> set (elements_of c)" "comes_from e e0"
      using Element.IH by blast
    with 2(1) show ?thesis by auto
  qed
qed simp_all

lemma elements_remove_from:
  assumes "\<And>c. P c \<Longrightarrow> is_element c"
  shows "e \<in> set (elements_of (remove_from P t)) \<Longrightarrow>
         \<exists>e0 \<in> set (elements_of t). comes_from e e0"
proof (induction t arbitrary: e)
  case (Element n as cs)
  from Element.prems consider "e = Element n as (map (remove_from P) (filter (\<lambda>c. \<not> P c) cs))"
    | c where "c \<in> set cs" "e \<in> set (elements_of (remove_from P c))"
    by auto
  then show ?case
  proof cases
    case 1
    have "filter (\<lambda>c. \<not> is_element c) (filter (\<lambda>c. \<not> P c) cs) =
          filter (\<lambda>c. \<not> is_element c) cs"
      using assms by (induction cs) auto
    with 1 have "comes_from e (Element n as cs)"
      by (simp add: comes_from_def filter_text_map)
    then show ?thesis by auto
  next
    case 2
    then obtain e0 where "e0 \<in> set (elements_of c)" "comes_from e e0"
      using Element.IH by blast
    with 2(1) show ?thesis by auto
  qed
qed simp_all

lemma all_elements_update_attribs:
  assumes "e \<in> set (all_elements (map (update_attribs f) doc))"
  obtains e0 where "e0 \<in> set (all_elements doc)" "comes_from e e0"
proof -
  from assms obtain t where "t \<in> set doc" "e \<in> set (elements_of (update_attribs f t))"
    by (auto simp: all_elements_def)
  then show ?thesis
    using elements_update_attribs [of e f t] that by (auto simp: all_elements_def)
qed

lemma all_elements_remove_elements:
  assumes "e \<in> set (all_elements (remove_elements P doc))" "\<And>c. P c \<Longrightarrow> is_element c"
  obtains e0 where "e0 \<in> set (all_elements doc)" "comes_from e e0"
proof -
  from assms(1) obtain t where "t \<in> set doc" "e \<in> set (elements_of (remove_from P t))"
    by (auto simp: all_elements_def remove_elements_def)
  then show ?thesis
    using elements_remove_from [of P e t] assms(2) that by (auto simp: all_elements_def)
qed

lemma elements_of_text: "(\<forall>c \<in> set cs. \<not> is_element c) \<Longrightarrow> concat (map elements_of cs) = []"
  by (induction cs) (auto elim: is_element.elims)

lemma elements_empty_svg:
  "e \<in> set (elements_of (empty_svg t)) \<Longrightarrow> tag_name e = lit ''svg'' \<Longrightarrow>
   \<exists>e1 \<in> set (elements_of t). tag_name e1 = lit ''svg'' \<and>
      attribs e = remove_all_attribs (attribs e1) \<and>
      children e = filter (\<lambda>c. \<not> is_element c) (children e1)"
proof (induction t arbitrary: e)
  case (Element n as cs)
  show ?case
  proof (cases "n = lit ''svg''")
    case True
    then have "empty_svg (Element n as cs) =
        Element n (remove_all_attribs as) (filter (\<lambda>c. \<not> is_element c) cs)"
      by (simp add: element_type_def lit_def)
    moreover have "concat (map elements_of (filter (\<lambda>c. \<not> is_element c) cs)) = []"
      by (rule elements_of_text) simp
    ultimately have "e = Element n (remove_all_attribs as) (filter (\<lambda>c. \<not> is_element c) cs)"
      using Element.prems(1) by simp
    then show ?thesis using True by auto
  next
    case False
    then have eq: "empty_svg (Element n as cs) = Element n as (map empty_svg cs)"
      by simp
    from Element.prems(1) consider "e = Element n as (map empty_svg cs)"
      | c where "c \<in> set cs" "e \<in> set (elements_of (empty_svg c))"
      unfolding eq by auto
    then show ?thesis
    proof cases
      case 1
      with False Element.prems(2) show ?thesis by simp
    next
      case 2
      then obtain e1 where "e1 \<in> set (elements_of c)" "tag_name e1 = lit ''svg''"
        "attribs e = remove_all_attribs (attribs e1)"
        "children e = filter (\<lambda>c. \<not> is_element c) (children e1)"
        using Element.IH Element.prems(2) by blast
      with 2(1) show ?thesis by auto
    qed
  qed
qed simp_all

text \<open>
  C8 (as amended).  After the tree steps of \<^verbatim>\<open>transformHtml\<close>, an \<^verbatim>\<open>svg\<close> element of the tree
  has no element among its children and no attribute whose name is not empty and free of
  white space.  It comes from an \<^verbatim>\<open>svg\<close> element of the document, and its children are the
  children of that element that are not elements (texts and comments), in their order.
\<close>

theorem svg_emptied_of_elements_and_attributes:
  assumes "e \<in> set (all_elements (transformHtml_tree doc))" and "tag_name e = lit ''svg''"
  shows "(\<forall>c \<in> set (children e). \<not> is_element c) \<and>
         (\<forall>(a, v) \<in> set (attribs e). \<not> plain_name a) \<and>
         (\<exists>e0 \<in> set (all_elements doc). tag_name e0 = lit ''svg'' \<and>
            children e = filter (\<lambda>c. \<not> is_element c) (children e0))"
proof -
  define d1 where "d1 = map (update_attribs (removeAttr (lit ''class''))) doc"
  define d2 where "d2 = map (update_attribs (removeAttr (lit ''srcset''))) d1"
  define d3 where "d3 = map (update_attribs (removeAttr (lit ''imagesrcset''))) d2"
  define d4 where "d4 = map (update_attribs (removeAttr (lit ''style''))) d3"
  define d5 where "d5 = map (update_attribs (removeAttr (lit ''onclick''))) d4"
  define d6 where "d6 = map (update_attribs remove_data_attribs) d5"
  define d7 where "d7 = remove_elements (\<lambda>el. is_element el \<and> tag_name el = lit ''script'' \<and>
                 attr el (lit ''type'') \<noteq> Some (lit ''application/ld+json'')) d6"
  define d8 where "d8 = remove_elements (\<lambda>el. is_element el \<and> tag_name el = lit ''style'') d7"
  define d9 where "d9 = remove_elements (\<lambda>el. is_element el \<and> tag_name el = lit ''link'' \<and>
                 attr el (lit ''rel'') \<noteq> Some (lit ''canonical'')) d8"
  define d10 where "d10 = remove_elements (\<lambda>el. is_element el \<and> tag_name el = lit ''template'') d9"
  have "transformHtml_tree doc = map empty_svg d10"
    unfolding transformHtml_tree_def Let_def d1_def d2_def d3_def d4_def d5_def d6_def d7_def
      d8_def d9_def d10_def by (rule refl)
  with assms(1) obtain t where "t \<in> set d10" "e \<in> set (elements_of (empty_svg t))"
    by (auto simp: all_elements_def)
  with assms(2) obtain e10 where e10: "e10 \<in> set (all_elements d10)" "tag_name e10 = lit ''svg''"
    and as: "attribs e = remove_all_attribs (attribs e10)"
    and cs: "children e = filter (\<lambda>c. \<not> is_element c) (children e10)"
    using elements_empty_svg [of e t] by (auto simp: all_elements_def)
  obtain e9 where e9: "e9 \<in> set (all_elements d9)" "comes_from e10 e9"
    using e10(1) unfolding d10_def by (rule all_elements_remove_elements) simp
  obtain e8 where e8: "e8 \<in> set (all_elements d8)" "comes_from e9 e8"
    using e9(1) unfolding d9_def by (rule all_elements_remove_elements) simp
  obtain e7 where e7: "e7 \<in> set (all_elements d7)" "comes_from e8 e7"
    using e8(1) unfolding d8_def by (rule all_elements_remove_elements) simp
  obtain e6 where e6: "e6 \<in> set (all_elements d6)" "comes_from e7 e6"
    using e7(1) unfolding d7_def by (rule all_elements_remove_elements) simp
  obtain e5 where e5: "e5 \<in> set (all_elements d5)" "comes_from e6 e5"
    using e6(1) unfolding d6_def by (rule all_elements_update_attribs)
  obtain e4 where e4: "e4 \<in> set (all_elements d4)" "comes_from e5 e4"
    using e5(1) unfolding d5_def by (rule all_elements_update_attribs)
  obtain e3 where e3: "e3 \<in> set (all_elements d3)" "comes_from e4 e3"
    using e4(1) unfolding d4_def by (rule all_elements_update_attribs)
  obtain e2 where e2: "e2 \<in> set (all_elements d2)" "comes_from e3 e2"
    using e3(1) unfolding d3_def by (rule all_elements_update_attribs)
  obtain e1 where e1: "e1 \<in> set (all_elements d1)" "comes_from e2 e1"
    using e2(1) unfolding d2_def by (rule all_elements_update_attribs)
  obtain e0 where e0: "e0 \<in> set (all_elements doc)" "comes_from e1 e0"
    using e1(1) unfolding d1_def by (rule all_elements_update_attribs)
  note c = comes_from_trans
  have "comes_from e10 e0"
    by (rule c [OF c [OF c [OF c [OF c [OF c [OF c [OF c [OF c [OF e9(2) e8(2)] e7(2)] e6(2)]
          e5(2)] e4(2)] e3(2)] e2(2)] e1(2)] e0(2)])
  then have "tag_name e0 = lit ''svg''"
    and "children e = filter (\<lambda>c. \<not> is_element c) (children e0)"
    using e10(2) cs by (simp_all add: comes_from_def)
  moreover have "\<forall>c \<in> set (children e). \<not> is_element c"
    using cs by simp
  moreover have "\<forall>(a, v) \<in> set (attribs e). \<not> plain_name a"
    using as remove_all_attribs_plain by auto
  ultimately show ?thesis using e0(1) by blast
qed

lemma is_space_nbsp: "is_space 0xA0"
  by (simp add: is_space_def)

lemma plain_name_lit:
  "plain_name (lit s) \<longleftrightarrow> s \<noteq> [] \<and> (\<forall>c \<in> set s. \<not> is_space (of_char c))"
  by (simp add: plain_name_def lit_def)

lemma spaced_name_not_plain: "\<not> plain_name spaced_name"
  by (simp add: plain_name_def spaced_name_def is_space_nbsp)

lemma spaced_name_neq [simp]:
  "plain_name n \<Longrightarrow> spaced_name \<noteq> n" "plain_name n \<Longrightarrow> n \<noteq> spaced_name"
  using spaced_name_not_plain by auto

lemma spaced_name_not_part [simp]: "spaced_name \<notin> set (splitNames n)"
proof
  assume "spaced_name \<in> set (splitNames n)"
  moreover have "0xA0 \<in> set spaced_name" by (simp add: spaced_name_def)
  ultimately have "\<not> is_space 0xA0" by (rule splitNames_parts)
  then show False by (simp add: is_space_nbsp)
qed

lemma spaced_name_not_data [simp]: "\<not> starts_with spaced_name (lit ''data-'')"
  by (simp add: starts_with_def spaced_name_def lit_def)

lemma splitNames_spaced_name: "splitNames spaced_name = [lit ''aria'', lit ''label'']"
  by (simp add: splitNames_def trim_def spaced_name_def lit_def is_space_def)

lemmas eval_names = plain_name_lit is_space_def removeAttr_plain

lemma example_doc_transformed:
  "transformHtml_tree example_doc =
     [Element (lit ''div'') []
        [Element (lit ''svg'') [(spaced_name, lit ''Menu'')]
           [Text (lit ''menu''), Comment (lit ''?icon?'')]]]"
proof -
  let ?A = "[Element (lit ''div'') [(lit ''data-id'', lit ''7'')]
        [Element (lit ''svg'') [(lit ''width'', lit ''24''), (spaced_name, lit ''Menu'')]
           [Text (lit ''menu''),
            Element (lit ''path'') [(lit ''d'', lit ''M0 0'')] [],
            Comment (lit ''?icon?'')]]]"
  let ?D = "[Element (lit ''div'') []
        [Element (lit ''svg'') [(lit ''width'', lit ''24''), (spaced_name, lit ''Menu'')]
           [Text (lit ''menu''),
            Element (lit ''path'') [(lit ''d'', lit ''M0 0'')] [],
            Comment (lit ''?icon?'')]]]"
  have s1: "map (update_attribs (removeAttr (lit ''class''))) example_doc = ?A"
    by (simp add: example_doc_def eval_names)
  have s2: "map (update_attribs (removeAttr (lit ''srcset''))) ?A = ?A"
    by (simp add: eval_names)
  have s3: "map (update_attribs (removeAttr (lit ''imagesrcset''))) ?A = ?A"
    by (simp add: eval_names)
  have s4: "map (update_attribs (removeAttr (lit ''style''))) ?A = ?A"
    by (simp add: eval_names)
  have s5: "map (update_attribs (removeAttr (lit ''onclick''))) ?A = ?A"
    by (simp add: eval_names)
  have s6: "map (update_attribs remove_data_attribs) ?A = ?D"
    by (simp add: remove_data_attribs_def eval_names)
  have r1: "remove_elements (\<lambda>el. is_element el \<and> tag_name el = lit ''script'' \<and>
                 attr el (lit ''type'') \<noteq> Some (lit ''application/ld+json'')) ?D = ?D"
    by (simp add: remove_elements_def)
  have r2: "remove_elements (\<lambda>el. is_element el \<and> tag_name el = lit ''style'') ?D = ?D"
    by (simp add: remove_elements_def)
  have r3: "remove_elements (\<lambda>el. is_element el \<and> tag_name el = lit ''link'' \<and>
                 attr el (lit ''rel'') \<noteq> Some (lit ''canonical'')) ?D = ?D"
    by (simp add: remove_elements_def)
  have r4: "remove_elements (\<lambda>el. is_element el \<and> tag_name el = lit ''template'') ?D = ?D"
    by (simp add: remove_elements_def)
  have a: "remove_all_attribs [(lit ''width'', lit ''24''), (spaced_name, lit ''Menu'')] =
      [(spaced_name, lit ''Menu'')]"
    by (simp add: remove_all_attribs_def removeAttr_filter eval_names splitNames_plain)
  have e: "map empty_svg ?D =
      [Element (lit ''div'') []
        [Element (lit ''svg'') [(spaced_name, lit ''Menu'')]
           [Text (lit ''menu''), Comment (lit ''?icon?'')]]]"
    by (simp add: element_type_def a)
  show ?thesis
    unfolding transformHtml_tree_def Let_def s1 s2 s3 s4 s5 s6 r1 r2 r3 r4 by (rule e)
qed

theorem svg_emptied_witness:
  "Element (lit ''svg'') [(spaced_name, lit ''Menu'')]
       [Text (lit ''menu''), Comment (lit ''?icon?'')]
     \<in> set (all_elements (transformHtml_tree example_doc)) \<and>
   \<not> is_element (Text (lit ''menu'')) \<and> \<not> is_element (Comment (lit ''?icon?'')) \<and>
   \<not> plain_name spaced_name \<and>
   Element (lit ''svg'') [(lit ''width'', lit ''24''), (spaced_name, lit ''Menu'')]
       [Text (lit ''menu''),
        Element (lit ''path'') [(lit ''d'', lit ''M0 0'')] [],
        Comment (lit ''?icon?'')]
     \<in> set (all_elements example_doc) \<and>
   [Text (lit ''menu''), Comment (lit ''?icon?'')] =
     filter (\<lambda>c. \<not> is_element c)
       [Text (lit ''menu''),
        Element (lit ''path'') [(lit ''d'', lit ''M0 0'')] [],
        Comment (lit ''?icon?'')]"
  using svg_emptied_of_elements_and_attributes
    [of "Element (lit ''svg'') [(spaced_name, lit ''Menu'')]
           [Text (lit ''menu''), Comment (lit ''?icon?'')]" example_doc]
  by (simp add: example_doc_transformed all_elements_def spaced_name_not_plain)
     (simp add: example_doc_def)

text \<open>
  The claim as stated says an \<^verbatim>\<open>svg\<close> element is left with no children and no attributes.
  The text and the comment directly inside the \<^verbatim>\<open>svg\<close> element of the example stay, and so
  does the attribute whose name holds a no-break space: \<^verbatim>\<open>removeAttr\<close> takes that name for
  the two names \<^verbatim>\<open>aria\<close> and \<^verbatim>\<open>label\<close>.
\<close>

theorem svg_keeps_text_and_spaced_attribute:
  "transformHtml_tree example_doc =
     [Element (lit ''div'') []
        [Element (lit ''svg'') [(spaced_name, lit ''Menu'')]
           [Text (lit ''menu''), Comment (lit ''?icon?'')]]] \<and>
   children (Element (lit ''svg'') [(spaced_name, lit ''Menu'')]
               [Text (lit ''menu''), Comment (lit ''?icon?'')]) \<noteq> [] \<and>
   attribs (Element (lit ''svg'') [(spaced_name, lit ''Menu'')]
              [Text (lit ''menu''), Comment (lit ''?icon?'')]) \<noteq> [] \<and>
   splitNames spaced_name = [lit ''aria'', lit ''label'']"
  by (simp add: example_doc_transformed splitNames_spaced_name)

end
